theory Spec2Isabelle
  imports Main "HOL-Library.Char_ord" "HOL-Library.List_Lexorder" "HOL-Library.Option_ord"
    "HOL-Library.AList"
begin

section \<open>Exceptions\<close>

text \<open>
  The exception classes that \<^verbatim>\<open>packaging.py\<close> raises, or that the library calls it makes
  raise on the inputs the module can hand them. A function that can raise returns
  \<open>error + 'a\<close>; a function that also mutates returns the state next to the outcome, since
  a Python exception leaves the mutations made before it in place.
\<close>

datatype error =
    LookupError
  | KeyError
  | DuplicateKeyError
  | NotXMLError
  | CorruptedPackageError
  | PackageNotFoundError
  | AttributeError
  | TypeError
  | IOError

text \<open>A Python value that is a string or \<^verbatim>\<open>None\<close>.\<close>

type_synonym pystr = "string option"

section \<open>\<^verbatim>\<open>os.path\<close> on POSIX\<close>

text \<open>\<^verbatim>\<open>p.rfind(c)\<close>: the index of the last occurrence of \<open>c\<close>, or \<open>-1\<close>.\<close>

definition rfind :: "string \<Rightarrow> char \<Rightarrow> int" where
  "rfind p c =
     (if c \<in> set p
      then int (length p) - 1 - int (length (takeWhile (\<lambda>x. x \<noteq> c) (rev p)))
      else - 1)"

text \<open>
  \<^verbatim>\<open>os.path.splitext(p)\<close>: the extension starts at the last dot of the last path component,
  unless that component has nothing but dots before it.
\<close>

definition splitext :: "string \<Rightarrow> string \<times> string" where
  "splitext p =
     (let sepIndex = rfind p CHR ''/'';
          dotIndex = rfind p CHR ''.''
      in if dotIndex > sepIndex
            \<and> (\<exists>ch \<in> set (take (nat (dotIndex - (sepIndex + 1))) (drop (nat (sepIndex + 1)) p)).
                   ch \<noteq> CHR ''.'')
         then (take (nat dotIndex) p, drop (nat dotIndex) p)
         else (p, []))"

text \<open>\<^verbatim>\<open>s.rstrip('/')\<close>.\<close>

definition rstrip_slash :: "string \<Rightarrow> string" where
  "rstrip_slash s = rev (dropWhile (\<lambda>x. x = CHR ''/'') (rev s))"

text \<open>\<^verbatim>\<open>os.path.split(p)\<close>: everything up to the last slash, and the rest.\<close>

definition split_path :: "string \<Rightarrow> string \<times> string" where
  "split_path p =
     (let i = nat (rfind p CHR ''/'' + 1);
          head = take i p;
          tail = drop i p
      in (if head \<noteq> [] \<and> head \<noteq> replicate (length head) CHR ''/''
          then rstrip_slash head else head, tail))"

text \<open>\<^verbatim>\<open>os.path.join(a, b)\<close>.\<close>

definition join_path :: "string \<Rightarrow> string \<Rightarrow> string" where
  "join_path a b =
     (if b \<noteq> [] \<and> hd b = CHR ''/'' then b
      else if a = [] \<or> last a = CHR ''/'' then a @ b
      else a @ ''/'' @ b)"

text \<open>\<^verbatim>\<open>path.split('/')\<close>: one more component than there are slashes.\<close>

fun split_slash :: "string \<Rightarrow> string list" where
  "split_slash [] = [[]]"
| "split_slash (c # cs) =
     (if c = CHR ''/'' then [] # split_slash cs
      else (case split_slash cs of
              [] \<Rightarrow> [[c]]
            | w # ws \<Rightarrow> (c # w) # ws))"

text \<open>\<^verbatim>\<open>'/'.join(comps)\<close>.\<close>

fun join_slash :: "string list \<Rightarrow> string" where
  "join_slash [] = []"
| "join_slash [w] = w"
| "join_slash (w # ws) = w @ ''/'' @ join_slash ws"

text \<open>
  The loop of \<^verbatim>\<open>os.path.normpath\<close> over the components, \<open>new_comps\<close> being the components
  kept so far.
\<close>

fun normpath_comps :: "bool \<Rightarrow> string list \<Rightarrow> string list \<Rightarrow> string list" where
  "normpath_comps initial_slashes new_comps [] = new_comps"
| "normpath_comps initial_slashes new_comps (seg # comps) =
     (if seg = [] \<or> seg = ''.'' then normpath_comps initial_slashes new_comps comps
      else if seg \<noteq> ''..'' \<or> (\<not> initial_slashes \<and> new_comps = [])
              \<or> (new_comps \<noteq> [] \<and> last new_comps = ''..'')
      then normpath_comps initial_slashes (new_comps @ [seg]) comps
      else if new_comps \<noteq> []
      then normpath_comps initial_slashes (butlast new_comps) comps
      else normpath_comps initial_slashes new_comps comps)"

text \<open>
  \<^verbatim>\<open>os.path.normpath(path)\<close>. POSIX keeps exactly two leading slashes and turns three or more
  into one.
\<close>

definition initial_slashes :: "string \<Rightarrow> nat" where
  "initial_slashes path =
     (if take 1 path = ''/''
      then (if take 2 path = ''//'' \<and> take 3 path \<noteq> ''///'' then 2 else 1)
      else 0)"

definition normpath :: "string \<Rightarrow> string" where
  "normpath path =
     (if path = [] then ''.''
      else let n = initial_slashes path;
               comps = normpath_comps (n \<noteq> 0) [] (split_slash path);
               path' = replicate n CHR ''/'' @ join_slash comps
           in if path' = [] then ''.'' else path')"

text \<open>
  \<^verbatim>\<open>os.path.abspath(path)\<close>; \<open>cwd\<close> is what \<^verbatim>\<open>os.getcwd()\<close> returns, read only for a
  path that is not absolute.
\<close>

definition abspath :: "string \<Rightarrow> string \<Rightarrow> string" where
  "abspath cwd path =
     normpath (if take 1 path = ''/'' then path else join_path cwd path)"

section \<open>The content types item\<close>

text \<open>
  \<^verbatim>\<open>ContentTypesItem\<close>: two dictionaries, both \<^verbatim>\<open>None\<close> until \<^verbatim>\<open>load\<close> or
  \<^verbatim>\<open>compose\<close> has run. A dictionary is an association list read with \<open>map_of\<close>; keys and
  values are what \<^verbatim>\<open>element.get\<close> returns, a string or \<^verbatim>\<open>None\<close>.
\<close>

type_synonym pydict = "(pystr \<times> pystr) list"

record ContentTypesItem =
  defaults :: "pydict option"
  overrides :: "pydict option"

text \<open>\<^verbatim>\<open>ContentTypesItem.__init__\<close>.\<close>

definition ContentTypesItem_init :: ContentTypesItem where
  "ContentTypesItem_init = \<lparr>defaults = None, overrides = None\<rparr>"

text \<open>The extension of a part name with the leading dot trimmed off, as \<^verbatim>\<open>__getitem__\<close> computes it.\<close>

definition partname_ext :: "string \<Rightarrow> string" where
  "partname_ext partname =
     (let ext = snd (splitext partname)
      in if take 1 ext = ''.'' then drop 1 ext else ext)"

text \<open>\<^verbatim>\<open>ContentTypesItem.__getitem__\<close>.\<close>

definition cti_getitem :: "ContentTypesItem \<Rightarrow> string \<Rightarrow> error + pystr" where
  "cti_getitem cti partname =
     (case (defaults cti, overrides cti) of
        (Some ds, Some os) \<Rightarrow>
          (case map_of os (Some partname) of
             Some ct \<Rightarrow> Inr ct
           | None \<Rightarrow>
               (case map_of ds (Some (partname_ext partname)) of
                  Some ct \<Rightarrow> Inr ct
                | None \<Rightarrow> Inl LookupError))
      | _ \<Rightarrow> Inl LookupError)"

text \<open>
  The resolution as the specification words it, for comparison: the override if there is
  one, otherwise the default of the lower-cased extension, otherwise a failure.
\<close>

definition lower_char :: "char \<Rightarrow> char" where
  "lower_char c =
     (if CHR ''A'' \<le> c \<and> c \<le> CHR ''Z'' then char_of (of_char c + (32::nat)) else c)"

definition resolve_spec :: "pydict \<Rightarrow> pydict \<Rightarrow> string \<Rightarrow> error + pystr" where
  "resolve_spec ds os item_path =
     (case map_of os (Some item_path) of
        Some ct \<Rightarrow> Inr ct
      | None \<Rightarrow>
          (case map_of ds (Some (map lower_char (partname_ext item_path))) of
             Some ct \<Rightarrow> Inr ct
           | None \<Rightarrow> Inl LookupError))"

text \<open>
  The extension of an item path, said without \<^verbatim>\<open>os.path.splitext\<close>: in the last path
  component, the text after the last dot, if something other than dots comes before that
  dot; the empty string otherwise.
\<close>

definition last_component :: "string \<Rightarrow> string" where
  "last_component p = rev (takeWhile (\<lambda>c. c \<noteq> CHR ''/'') (rev p))"

definition extension_as_written :: "string \<Rightarrow> string" where
  "extension_as_written p =
     (let name = last_component p;
          e = rev (takeWhile (\<lambda>c. c \<noteq> CHR ''.'') (rev name));
          stem = take (length name - length e - 1) name
      in if CHR ''.'' \<in> set name \<and> (\<exists>c \<in> set stem. c \<noteq> CHR ''.'') then e else [])"

section \<open>What the module takes from outside\<close>

text \<open>
  An XML element as \<^verbatim>\<open>lxml\<close> presents it: a tag (namespace included), the attributes in
  document order, the text, the child elements.
\<close>

datatype xml = Element (tag: string) (attrib: "(string \<times> string) list") (elem_text: string)
  (children: "xml list")

text \<open>One row of \<^verbatim>\<open>pptx.spec.pml_parttypes\<close>.\<close>

record ptsdict =
  basename :: string
  ext :: string
  cardinality :: string
  required :: bool
  baseURI :: string
  has_rels :: string
  rel_type :: string

text \<open>
  The tables of \<^verbatim>\<open>pptx.spec\<close> and the library functions whose code is not part of the
  module: the part type table, the default content types keyed by extension (leading dot
  included), the namespace map, the working directory that \<^verbatim>\<open>os.path.abspath\<close> reads, the
  XML parser (\<open>None\<close> for \<^verbatim>\<open>XMLSyntaxError\<close>) and the serializer
  (\<^verbatim>\<open>etree.tostring\<close> followed by \<^verbatim>\<open>util.prettify_nsdecls\<close>).
\<close>

record env =
  pml_parttypes :: "string \<rightharpoonup> ptsdict"
  default_content_types :: "string \<rightharpoonup> string"
  nsmap :: "string \<Rightarrow> string"
  getcwd :: string
  xml_parse :: "string \<Rightarrow> xml option"
  xml_tostring :: "xml \<Rightarrow> string"

text \<open>\<^verbatim>\<open>pptx.spec.qname\<close>: the tag in Clark notation.\<close>

definition qname :: "env \<Rightarrow> string \<Rightarrow> string \<Rightarrow> string" where
  "qname E prefix tagroot = ''{'' @ nsmap E prefix @ ''}'' @ tagroot"

text \<open>\<^verbatim>\<open>element.get(key)\<close> and \<^verbatim>\<open>element.findall(tag)\<close>.\<close>

definition xml_get :: "xml \<Rightarrow> string \<Rightarrow> pystr" where
  "xml_get e key = map_of (attrib e) key"

definition findall :: "xml \<Rightarrow> string \<Rightarrow> xml list" where
  "findall e t = filter (\<lambda>c. tag c = t) (children e)"

section \<open>File systems\<close>

text \<open>
  A file system object with what is found at its path while it is in use: below a directory,
  the files by their path relative to it (leading slash kept); in a zip archive, the members
  by name, in the order they were written.
\<close>

datatype FileSystem =
    DirectoryFileSystem (path: string) (files: "(string \<times> string) list")
  | ZipFileSystem (path: string) (members: "(string \<times> string) list")

text \<open>The \<^verbatim>\<open>itemURIs\<close> property of the two classes.\<close>

fun itemURIs :: "FileSystem \<Rightarrow> string list" where
  "itemURIs (DirectoryFileSystem p fs) = sort (map fst fs)"
| "itemURIs (ZipFileSystem p ms) =
     sort (map (\<lambda>name. ''/'' @ name)
       (filter (\<lambda>name. \<not> (name \<noteq> [] \<and> last name = CHR ''/'')) (map fst ms)))"

text \<open>\<^verbatim>\<open>BaseFileSystem.__contains__\<close>.\<close>

definition fs_contains :: "FileSystem \<Rightarrow> string \<Rightarrow> bool" where
  "fs_contains fs itemURI \<longleftrightarrow> itemURI \<in> set (itemURIs fs)"

text \<open>
  \<^verbatim>\<open>getstream\<close> followed by \<^verbatim>\<open>read\<close>: the bytes of the item. A zip archive that holds a
  name twice reads the member written last.
\<close>

fun getstream :: "FileSystem \<Rightarrow> string \<Rightarrow> error + string" where
  "getstream (DirectoryFileSystem p fs) itemURI =
     (if \<not> fs_contains (DirectoryFileSystem p fs) itemURI then Inl LookupError
      else case map_of fs itemURI of
             Some bytes \<Rightarrow> Inr bytes
           | None \<Rightarrow> Inl IOError)"
| "getstream (ZipFileSystem p ms) itemURI =
     (if \<not> fs_contains (ZipFileSystem p ms) itemURI then Inl LookupError
      else case map_of (rev ms) (drop 1 itemURI) of
             Some bytes \<Rightarrow> Inr bytes
           | None \<Rightarrow> Inl KeyError)"

text \<open>\<^verbatim>\<open>BaseFileSystem.getblob\<close>.\<close>

definition getblob :: "FileSystem \<Rightarrow> string \<Rightarrow> error + string" where
  "getblob fs itemURI =
     (if \<not> fs_contains fs itemURI then Inl LookupError else getstream fs itemURI)"

text \<open>\<^verbatim>\<open>BaseFileSystem.getelement\<close>.\<close>

definition getelement :: "env \<Rightarrow> FileSystem \<Rightarrow> string \<Rightarrow> error + xml" where
  "getelement E fs itemURI =
     (if \<not> fs_contains fs itemURI then Inl LookupError
      else case getstream fs itemURI of
             Inl e \<Rightarrow> Inl e
           | Inr stream \<Rightarrow>
               (case xml_parse E stream of
                  None \<Rightarrow> Inl NotXMLError
                | Some element \<Rightarrow> Inr element))"

section \<open>Part type specs\<close>

text \<open>
  A \<^verbatim>\<open>PartTypeSpec\<close> instance: whether it has the \<^verbatim>\<open>_loaded\<close> attribute, and the
  attributes \<^verbatim>\<open>__init__\<close> sets from the table, absent until then.
\<close>

record PartTypeSpec_attrs = ptsdict +
  content_type :: string
  loadclass :: pystr

record PartTypeSpec =
  loaded :: bool
  attrs :: "PartTypeSpec_attrs option"

text \<open>
  The class attributes of \<^verbatim>\<open>PartTypeSpec\<close>, shared by the whole process, and the instances
  made so far: an instance is known by its number, \<open>ninstances\<close> counts those created.
\<close>

record registry =
  instances :: "pystr \<rightharpoonup> nat"
  loadclassmap :: "pystr \<rightharpoonup> string"
  defloadclass :: pystr
  objects :: "nat \<Rightarrow> PartTypeSpec"
  ninstances :: nat

definition registry_init :: registry where
  "registry_init =
     \<lparr>instances = Map.empty, loadclassmap = Map.empty, defloadclass = None,
      objects = (\<lambda>_. \<lparr>loaded = False, attrs = None\<rparr>), ninstances = 0\<rparr>"

text \<open>\<^verbatim>\<open>PartTypeSpec.__new__\<close>: the cached instance, made first if there is none.\<close>

definition PartTypeSpec_new :: "pystr \<Rightarrow> registry \<Rightarrow> nat \<times> registry" where
  "PartTypeSpec_new ct reg =
     (case instances reg ct of
        Some inst \<Rightarrow> (inst, reg)
      | None \<Rightarrow>
          (let inst = ninstances reg
           in (inst, reg\<lparr>instances := (instances reg)(ct \<mapsto> inst),
                          objects := (objects reg)(inst := \<lparr>loaded = False, attrs = None\<rparr>),
                          ninstances := Suc (ninstances reg)\<rparr>)))"

text \<open>\<^verbatim>\<open>PartTypeSpec.__init__\<close> on the instance \<open>self\<close>.\<close>

definition PartTypeSpec_init :: "env \<Rightarrow> nat \<Rightarrow> pystr \<Rightarrow> registry \<Rightarrow> (error + unit) \<times> registry" where
  "PartTypeSpec_init E self ct reg =
     (if loaded (objects reg self) then (Inr (), reg)
      else
        let reg' = reg\<lparr>objects := (objects reg)(self := (objects reg self)\<lparr>loaded := True\<rparr>)\<rparr>
        in case ct of
             None \<Rightarrow> (Inl KeyError, reg')
           | Some c \<Rightarrow>
               (case pml_parttypes E c of
                  None \<Rightarrow> (Inl KeyError, reg')
                | Some ptsdict \<Rightarrow>
                    (Inr (),
                     reg'\<lparr>objects := (objects reg')(self := (objects reg' self)
                       \<lparr>attrs := Some (ptsdict.extend ptsdict
                          (PartTypeSpec_attrs.fields c
                             (case loadclassmap reg (Some c) of
                                Some lc \<Rightarrow> Some lc
                              | None \<Rightarrow> defloadclass reg)))\<rparr>)\<rparr>)))"

text \<open>The call \<^verbatim>\<open>PartTypeSpec(content_type)\<close>: \<^verbatim>\<open>__new__\<close>, then \<^verbatim>\<open>__init__\<close> on its result.\<close>

definition PartTypeSpec_call :: "env \<Rightarrow> pystr \<Rightarrow> registry \<Rightarrow> (error + nat) \<times> registry" where
  "PartTypeSpec_call E ct reg =
     (let (inst, reg1) = PartTypeSpec_new ct reg
      in case PartTypeSpec_init E inst ct reg1 of
           (Inl e, reg2) \<Rightarrow> (Inl e, reg2)
         | (Inr _, reg2) \<Rightarrow> (Inr inst, reg2))"

text \<open>\<^verbatim>\<open>PartTypeSpec.register\<close> for one entry, and \<^verbatim>\<open>register_def_loadclass\<close>.\<close>

definition register :: "string \<Rightarrow> string \<Rightarrow> registry \<Rightarrow> registry" where
  "register ct lc reg = reg\<lparr>loadclassmap := (loadclassmap reg)(Some ct \<mapsto> lc)\<rparr>"

definition register_def_loadclass :: "pystr \<Rightarrow> registry \<Rightarrow> registry" where
  "register_def_loadclass lc reg = reg\<lparr>defloadclass := lc\<rparr>"

text \<open>
  The \<^verbatim>\<open>format\<close> property; reading \<^verbatim>\<open>ext\<close> of an instance that \<^verbatim>\<open>__init__\<close> left without
  attributes raises \<^verbatim>\<open>AttributeError\<close>.
\<close>

definition format :: "PartTypeSpec \<Rightarrow> error + string" where
  "format ts =
     (case attrs ts of
        None \<Rightarrow> Inl AttributeError
      | Some a \<Rightarrow> Inr (if ext a = ''.xml'' then ''xml'' else ''binary''))"

text \<open>
  The registries a process can be in: it starts with the empty class attributes, and every
  call of the constructor or of one of the two registration methods leads to the next one.
\<close>

inductive registry_reachable :: "env \<Rightarrow> registry \<Rightarrow> bool" for E :: env where
  start: "registry_reachable E registry_init"
| construct: "registry_reachable E reg \<Longrightarrow> registry_reachable E (snd (PartTypeSpec_call E ct reg))"
| hook: "registry_reachable E reg \<Longrightarrow> registry_reachable E (register c lc reg)"
| default_hook: "registry_reachable E reg \<Longrightarrow> registry_reachable E (register_def_loadclass lc reg)"

text \<open>
  What holds of every reachable registry: the cached content types and the instances created
  correspond one to one, and the instance cached for a content type of the table has been
  initialized from its row.
\<close>

definition registry_inv :: "env \<Rightarrow> registry \<Rightarrow> bool" where
  "registry_inv E reg \<longleftrightarrow>
     bij_betw (\<lambda>k. the (instances reg k)) (dom (instances reg)) {..<ninstances reg}
   \<and> (\<forall>c inst row. instances reg (Some c) = Some inst \<and> pml_parttypes E c = Some row \<longrightarrow>
        loaded (objects reg inst)
        \<and> (\<exists>a. attrs (objects reg inst) = Some a \<and> ptsdict.truncate a = row \<and> content_type a = c))"

section \<open>Relationships\<close>

text \<open>
  \<^verbatim>\<open>Relationship\<close>: the three attributes read from the element, each \<^verbatim>\<open>None\<close> when the
  element lacks it. The base URI of the parent is passed where it is needed.
\<close>

record Relationship =
  rId :: pystr
  reltype :: pystr
  target :: pystr

definition Relationship_init :: "xml \<Rightarrow> Relationship" where
  "Relationship_init element =
     \<lparr>rId = xml_get element ''Id'', reltype = xml_get element ''Type'',
      target = xml_get element ''Target''\<rparr>"

text \<open>
  The \<^verbatim>\<open>target_partname\<close> property, \<open>base\<close> being \<^verbatim>\<open>self.parent.baseURI\<close>;
  \<^verbatim>\<open>os.path.join\<close> raises \<^verbatim>\<open>AttributeError\<close> on a target that is \<^verbatim>\<open>None\<close>.
\<close>

definition target_partname :: "env \<Rightarrow> string \<Rightarrow> Relationship \<Rightarrow> error + string" where
  "target_partname E base r =
     (case target r of
        None \<Rightarrow> Inl AttributeError
      | Some t \<Rightarrow> Inr (abspath (getcwd E) (join_path base t)))"

text \<open>\<^verbatim>\<open>RelationshipCollection\<close>: the list it is, and its \<^verbatim>\<open>_id_dict\<close>.\<close>

record RelationshipCollection =
  rel_list :: "Relationship list"
  id_dict :: "pystr \<rightharpoonup> Relationship"

definition RelationshipCollection_init :: RelationshipCollection where
  "RelationshipCollection_init = \<lparr>rel_list = [], id_dict = Map.empty\<rparr>"

text \<open>\<^verbatim>\<open>RelationshipCollection.additem\<close>.\<close>

definition additem ::
  "RelationshipCollection \<Rightarrow> xml \<Rightarrow> (error + Relationship) \<times> RelationshipCollection" where
  "additem rc rel_elm =
     (let rel = Relationship_init rel_elm
      in if rId rel \<in> dom (id_dict rc) then (Inl DuplicateKeyError, rc)
         else (Inr rel, rc\<lparr>id_dict := (id_dict rc)(rId rel \<mapsto> rel),
                            rel_list := rel_list rc @ [rel]\<rparr>))"

text \<open>\<^verbatim>\<open>RelationshipCollection.getitem\<close>.\<close>

definition rc_getitem :: "RelationshipCollection \<Rightarrow> pystr \<Rightarrow> error + Relationship" where
  "rc_getitem rc key = (case id_dict rc key of Some rel \<Rightarrow> Inr rel | None \<Rightarrow> Inl LookupError)"

text \<open>The loop of \<^verbatim>\<open>RelationshipsItem.load\<close> that adds the elements found.\<close>

fun additems :: "xml list \<Rightarrow> RelationshipCollection \<Rightarrow> error + RelationshipCollection" where
  "additems [] rc = Inr rc"
| "additems (r # rs) rc =
     (case additem rc r of
        (Inl e, _) \<Rightarrow> Inl e
      | (Inr _, rc') \<Rightarrow> additems rs rc')"

text \<open>\<^verbatim>\<open>RelationshipsItem.load\<close>: the collection read from the item at \<open>itemURI\<close>.\<close>

definition RelationshipsItem_load ::
  "env \<Rightarrow> FileSystem \<Rightarrow> string \<Rightarrow> error + RelationshipCollection" where
  "RelationshipsItem_load E fs itemURI =
     (case getelement E fs itemURI of
        Inl e \<Rightarrow> Inl e
      | Inr element \<Rightarrow>
          additems (findall element (qname E ''pr'' ''Relationship'')) RelationshipCollection_init)"

text \<open>
  A relationships item after \<^verbatim>\<open>load\<close>: its base URI, its item URI and its relationships.
  The package relationships item has the fixed base URI \<^verbatim>\<open>/\<close> and item URI
  \<^verbatim>\<open>/_rels/.rels\<close>; a part relationships item takes the directory of its part.
\<close>

record RelationshipsItem =
  ri_baseURI :: string
  ri_itemURI :: string
  relationships :: RelationshipCollection

definition PackageRelationshipsItem_load :: "env \<Rightarrow> FileSystem \<Rightarrow> error + RelationshipsItem" where
  "PackageRelationshipsItem_load E fs =
     (case RelationshipsItem_load E fs ''/_rels/.rels'' of
        Inl e \<Rightarrow> Inl e
      | Inr rc \<Rightarrow> Inr \<lparr>ri_baseURI = ''/'', ri_itemURI = ''/_rels/.rels'', relationships = rc\<rparr>)"

definition PartRelationshipsItem_load ::
  "env \<Rightarrow> string \<Rightarrow> FileSystem \<Rightarrow> string \<Rightarrow> error + RelationshipsItem" where
  "PartRelationshipsItem_load E part_itemURI fs itemURI =
     (case RelationshipsItem_load E fs itemURI of
        Inl e \<Rightarrow> Inl e
      | Inr rc \<Rightarrow>
          Inr \<lparr>ri_baseURI = fst (split_path part_itemURI), ri_itemURI = itemURI,
               relationships = rc\<rparr>)"

section \<open>Parts\<close>

record Part =
  partname :: string
  relsitem :: "RelationshipsItem option"
  blob :: pystr
  element :: "xml option"
  typespec :: nat

text \<open>\<^verbatim>\<open>Part.__relsitemURI\<close>.\<close>

definition relsitemURI :: "PartTypeSpec \<Rightarrow> string \<Rightarrow> FileSystem \<Rightarrow> error + pystr" where
  "relsitemURI ts pn fs =
     (case attrs ts of
        None \<Rightarrow> Inl AttributeError
      | Some a \<Rightarrow>
          if has_rels a = ''never'' then Inr None
          else
            let (head, tail) = split_path pn;
                uri = head @ ''/_rels/'' @ tail @ ''.rels'';
                present = fs_contains fs uri
            in if has_rels a = ''optional'' then Inr (if present then Some uri else None)
               else Inr (Some uri))"

text \<open>
  The two blocks of \<^verbatim>\<open>Part.load\<close>: the element of an XML part or the blob of a binary one,
  the other slot being \<^verbatim>\<open>None\<close>; and the relationships item, loaded when
  \<^verbatim>\<open>__relsitemURI\<close> returned a URI, which must then be in the file system.
\<close>

definition load_body :: "env \<Rightarrow> FileSystem \<Rightarrow> string \<Rightarrow> string \<Rightarrow> error + pystr \<times> xml option" where
  "load_body E fs fmt pn =
     (if fmt = ''xml''
      then (case getelement E fs pn of
              Inl e \<Rightarrow> Inl e
            | Inr el \<Rightarrow> Inr (None, Some el))
      else (case getstream fs pn of
              Inl e \<Rightarrow> Inl e
            | Inr bytes \<Rightarrow> Inr (Some bytes, None)))"

definition load_relsitem ::
  "env \<Rightarrow> FileSystem \<Rightarrow> string \<Rightarrow> pystr \<Rightarrow> error + RelationshipsItem option" where
  "load_relsitem E fs pn uri_opt =
     (case uri_opt of
        None \<Rightarrow> Inr None
      | Some uri \<Rightarrow>
          if uri = [] then Inr None
          else if \<not> fs_contains fs uri then Inl CorruptedPackageError
          else (case PartRelationshipsItem_load E pn fs uri of
                  Inl e \<Rightarrow> Inl e
                | Inr ri \<Rightarrow> Inr (Some ri)))"

text \<open>
  \<^verbatim>\<open>Part().load(fs, partname, content_type)\<close> from the point where \<^verbatim>\<open>self.typespec\<close> is
  set: \<open>ts\<close> is the instance and \<open>spec\<close> what it holds.
\<close>

definition Part_load_with ::
  "env \<Rightarrow> FileSystem \<Rightarrow> string \<Rightarrow> nat \<Rightarrow> PartTypeSpec \<Rightarrow> error + Part" where
  "Part_load_with E fs pn ts spec =
     (case format spec of
        Inl e \<Rightarrow> Inl e
      | Inr fmt \<Rightarrow>
          (case load_body E fs fmt pn of
             Inl e \<Rightarrow> Inl e
           | Inr (b, el) \<Rightarrow>
               (case relsitemURI spec pn fs of
                  Inl e \<Rightarrow> Inl e
                | Inr uri_opt \<Rightarrow>
                    (case load_relsitem E fs pn uri_opt of
                       Inl e \<Rightarrow> Inl e
                     | Inr ri_opt \<Rightarrow>
                         Inr \<lparr>partname = pn, relsitem = ri_opt, blob = b, element = el,
                              typespec = ts\<rparr>))))"

text \<open>
  \<^verbatim>\<open>Part().load(fs, partname, content_type)\<close>. The part is a fresh object, dropped when the
  load raises; the part type spec cache is not.
\<close>

definition Part_load ::
  "env \<Rightarrow> FileSystem \<Rightarrow> string \<Rightarrow> pystr \<Rightarrow> registry \<Rightarrow> (error + Part) \<times> registry" where
  "Part_load E fs pn ct reg =
     (case PartTypeSpec_call E ct reg of
        (Inl e, reg') \<Rightarrow> (Inl e, reg')
      | (Inr ts, reg') \<Rightarrow> (Part_load_with E fs pn ts (objects reg' ts), reg'))"

text \<open>The \<^verbatim>\<open>relationships\<close> property of a part.\<close>

definition part_relationships :: "Part \<Rightarrow> RelationshipCollection option" where
  "part_relationships part = map_option relationships (relsitem part)"

text \<open>\<^verbatim>\<open>PartCollection\<close>: the list it is, and its \<^verbatim>\<open>__partname_dict\<close>.\<close>

record PartCollection =
  part_list :: "Part list"
  partname_dict :: "string \<rightharpoonup> Part"

definition PartCollection_init :: PartCollection where
  "PartCollection_init = \<lparr>part_list = [], partname_dict = Map.empty\<rparr>"

text \<open>\<^verbatim>\<open>PartCollection.getitem\<close>.\<close>

definition pc_getitem :: "PartCollection \<Rightarrow> string \<Rightarrow> error + Part" where
  "pc_getitem pc pn = (case partname_dict pc pn of Some part \<Rightarrow> Inr part | None \<Rightarrow> Inl LookupError)"

text \<open>\<^verbatim>\<open>PartCollection.loadpart\<close>, on the collection and the part type spec cache.\<close>

definition loadpart ::
  "env \<Rightarrow> FileSystem \<Rightarrow> string \<Rightarrow> pystr \<Rightarrow> PartCollection \<times> registry
     \<Rightarrow> (error + Part) \<times> PartCollection \<times> registry" where
  "loadpart E fs pn ct s =
     (case s of (pc, reg) \<Rightarrow>
        if pn \<in> dom (partname_dict pc) then (Inl DuplicateKeyError, pc, reg)
        else (case Part_load E fs pn ct reg of
                (Inl e, reg') \<Rightarrow> (Inl e, pc, reg')
              | (Inr part, reg') \<Rightarrow>
                  (Inr part,
                   pc\<lparr>partname_dict := (partname_dict pc)(pn \<mapsto> part),
                      part_list := part_list pc @ [part]\<rparr>, reg')))"

section \<open>Loading a package\<close>

text \<open>
  \<^verbatim>\<open>Package.loadparts\<close>, on the part collection of the package and the part type spec
  cache; \<open>base\<close> is the base URI of the collection \<open>rels\<close> belongs to. The recursive call
  on the relationships of a new part is made when they are neither \<^verbatim>\<open>None\<close> nor empty.
\<close>

function loadparts ::
  "env \<Rightarrow> FileSystem \<Rightarrow> ContentTypesItem \<Rightarrow> string \<Rightarrow> Relationship list
     \<Rightarrow> PartCollection \<times> registry \<Rightarrow> (error + unit) \<times> PartCollection \<times> registry" where
  "loadparts E fs cti base [] s = (Inr (), s)"
| "loadparts E fs cti base (r # rels) s =
     (case target_partname E base r of
        Inl e \<Rightarrow> (Inl e, s)
      | Inr pn \<Rightarrow>
          if pn \<in> dom (partname_dict (fst s)) then loadparts E fs cti base rels s
          else (case cti_getitem cti pn of
                  Inl e \<Rightarrow> (Inl e, s)
                | Inr ct \<Rightarrow>
                    (case loadpart E fs pn ct s of
                       (Inl e, s') \<Rightarrow> (Inl e, s')
                     | (Inr part, s') \<Rightarrow>
                         (case relsitem part of
                            None \<Rightarrow> loadparts E fs cti base rels s'
                          | Some ri \<Rightarrow>
                              if rel_list (relationships ri) = []
                              then loadparts E fs cti base rels s'
                              else (case loadparts E fs cti (ri_baseURI ri)
                                           (rel_list (relationships ri)) s' of
                                      (Inl e, s'') \<Rightarrow> (Inl e, s'')
                                    | (Inr _, s'') \<Rightarrow> loadparts E fs cti base rels s'')))))"
  by pat_completeness auto


text \<open>
  The recursion ends because a part that loads is an item of the file system that was not in
  the collection, and the collection never shrinks: the number of items not yet loaded
  decreases with every nested call.
\<close>

lemma getstream_Inr: "getstream fs uri = Inr b \<Longrightarrow> fs_contains fs uri"
  by (cases fs) (auto split: if_splits)

lemma getelement_Inr: "getelement E fs uri = Inr el \<Longrightarrow> fs_contains fs uri"
  by (auto simp: getelement_def split: if_splits)

lemma Part_load_Inr:
  assumes "Part_load E fs pn ct reg = (Inr part, reg')"
  shows "fs_contains fs pn \<and> partname part = pn"
  using assms
  by (auto simp: Part_load_def Part_load_with_def load_body_def
        split: prod.splits sum.splits if_splits dest: getstream_Inr getelement_Inr)

lemma loadpart_Inr:
  assumes "loadpart E fs pn ct s = (Inr part, s')"
  shows "fs_contains fs pn \<and> pn \<notin> dom (partname_dict (fst s)) \<and> partname part = pn
       \<and> partname_dict (fst s') = (partname_dict (fst s))(pn \<mapsto> part)
       \<and> part_list (fst s') = part_list (fst s) @ [part]"
  using assms
  by (auto simp: loadpart_def split: prod.splits sum.splits if_splits dest: Part_load_Inr)

lemma loadparts_dom_mono:
  assumes "loadparts_dom (E, fs, cti, base, rels, s)"
  shows "dom (partname_dict (fst s))
           \<subseteq> dom (partname_dict (fst (snd (loadparts E fs cti base rels s))))"
  using assms
proof (induction rule: loadparts.pinduct)
  case (1 E fs cti base s)
  then show ?case by (simp add: loadparts.psimps)
next
  case (2 E fs cti base r rels s)
  show ?case
  proof (cases "target_partname E base r")
    case (Inl e)
    then show ?thesis using 2(1) by (simp add: loadparts.psimps)
  next
    case (Inr pn)
    show ?thesis
    proof (cases "pn \<in> dom (partname_dict (fst s))")
      case True
      then show ?thesis using 2(1) 2(2) [OF Inr True] Inr by (simp add: loadparts.psimps)
    next
      case False
      show ?thesis
      proof (cases "cti_getitem cti pn")
        case (Inl e)
        then show ?thesis using 2(1) Inr False by (simp add: loadparts.psimps)
      next
        case ct: (Inr ct)
        obtain x s' where lp: "loadpart E fs pn ct s = (x, s')" by (cases "loadpart E fs pn ct s")
        show ?thesis
        proof (cases x)
          case (Inl e)
          then have "s' = (fst s, snd s') " using lp
            by (auto simp: loadpart_def split: prod.splits sum.splits if_splits)
          then have "fst s' = fst s" by (metis fst_conv)
          then show ?thesis using 2(1) Inr False ct lp Inl by (simp add: loadparts.psimps)
        next
          case part: (Inr part)
          have grow: "dom (partname_dict (fst s)) \<subseteq> dom (partname_dict (fst s'))"
            using loadpart_Inr [OF lp [unfolded part]] by auto
          show ?thesis
          proof (cases "relsitem part")
            case None
            have "dom (partname_dict (fst s')) \<subseteq> dom (partname_dict (fst (snd (loadparts E fs cti base rels s'))))"
              using 2(3) [OF Inr False ct lp [symmetric] part None] .
            then show ?thesis using grow 2(1) Inr False ct lp part None
              by (auto simp: loadparts.psimps)
          next
            case (Some ri)
            show ?thesis
            proof (cases "rel_list (relationships ri) = []")
              case True
              have "dom (partname_dict (fst s')) \<subseteq> dom (partname_dict (fst (snd (loadparts E fs cti base rels s'))))"
                using 2(4) [OF Inr False ct lp [symmetric] part Some True] .
              then show ?thesis using grow 2(1) Inr False ct lp part Some True
                by (auto simp: loadparts.psimps)
            next
              case ne: False
              obtain y s'' where inner: "loadparts E fs cti (ri_baseURI ri) (rel_list (relationships ri)) s' = (y, s'')"
                by (cases "loadparts E fs cti (ri_baseURI ri) (rel_list (relationships ri)) s'")
              have g2: "dom (partname_dict (fst s')) \<subseteq> dom (partname_dict (fst s''))"
                using 2(5) [OF Inr False ct lp [symmetric] part Some ne] inner by simp
              show ?thesis
              proof (cases y)
                case (Inl e)
                then show ?thesis using grow g2 2(1) Inr False ct lp part Some ne inner
                  by (auto simp: loadparts.psimps)
              next
                case u: (Inr u)
                have "dom (partname_dict (fst s'')) \<subseteq> dom (partname_dict (fst (snd (loadparts E fs cti base rels s''))))"
                  using 2(6) [OF Inr False ct lp [symmetric] part Some ne inner [symmetric] u] .
                then show ?thesis using grow g2 2(1) Inr False ct lp part Some ne inner u
                  by (auto simp: loadparts.psimps)
              qed
            qed
          qed
        qed
      qed
    qed
  qed
qed

definition unloaded :: "FileSystem \<Rightarrow> PartCollection \<Rightarrow> nat" where
  "unloaded fs pc = card (set (itemURIs fs) - dom (partname_dict pc))"

lemma unloaded_mono:
  "dom (partname_dict pc) \<subseteq> dom (partname_dict pc') \<Longrightarrow> unloaded fs pc' \<le> unloaded fs pc"
  unfolding unloaded_def by (intro card_mono) auto

lemma unloaded_loadpart:
  assumes "loadpart E fs pn ct s = (Inr part, s')"
  shows "unloaded fs (fst s') < unloaded fs (fst s)"
proof -
  from loadpart_Inr [OF assms] have c: "pn \<in> set (itemURIs fs)" and n: "pn \<notin> dom (partname_dict (fst s))"
    and d: "dom (partname_dict (fst s')) = insert pn (dom (partname_dict (fst s)))"
    by (auto simp: fs_contains_def)
  have "set (itemURIs fs) - dom (partname_dict (fst s')) \<subset> set (itemURIs fs) - dom (partname_dict (fst s))"
    using c n d by auto
  then show ?thesis unfolding unloaded_def by (intro psubset_card_mono) auto
qed

termination loadparts
proof (relation "inv_image (less_than <*lex*> less_than)
         (\<lambda>(E, fs, cti, base, rels, s). (unloaded fs (fst s), length rels))", goal_cases)
  case 1
  show ?case by (intro wf_inv_image wf_lex_prod wf_less_than)
next
  case (2 E fs cti base r rels s pn)
  then show ?case by simp
next
  case (3 E fs cti base r rels s pn ct x s' part)
  then show ?case using unloaded_loadpart [of E fs pn ct s part s'] by simp
next
  case (4 E fs cti base r rels s pn ct x s' part ri)
  then show ?case using unloaded_loadpart [of E fs pn ct s part s'] by simp
next
  case (5 E fs cti base r rels s pn ct x s' part ri)
  then show ?case using unloaded_loadpart [of E fs pn ct s part s'] by simp
next
  case (6 E fs cti base r rels s pn ct x s' part ri y s'' u)
  have a: "unloaded fs (fst s') < unloaded fs (fst s)"
    using 6 unloaded_loadpart [of E fs pn ct s part s'] by simp
  have dm: "loadparts_dom (E, fs, cti, ri_baseURI ri, rel_list (relationships ri), s')"
    using 6 by blast
  have "dom (partname_dict (fst s')) \<subseteq> dom (partname_dict (fst s''))"
    using loadparts_dom_mono [OF dm] 6 by (metis snd_conv)
  from unloaded_mono [OF this, of fs] a show ?case by simp
qed

text \<open>
  The part names the relationship graph reaches from the relationships \<open>rels\<close> of an owner
  with base URI \<open>base\<close>: the targets of \<open>rels\<close>, and the targets of the relationships of
  every part of the collection that is reached.
\<close>

inductive reachable_partname ::
  "env \<Rightarrow> PartCollection \<Rightarrow> string \<Rightarrow> Relationship list \<Rightarrow> string \<Rightarrow> bool"
  for E :: env and pc :: PartCollection and base :: string and rels :: "Relationship list" where
  root: "r \<in> set rels \<Longrightarrow> target_partname E base r = Inr pn \<Longrightarrow> reachable_partname E pc base rels pn"
| step: "reachable_partname E pc base rels pn \<Longrightarrow> partname_dict pc pn = Some part
     \<Longrightarrow> relsitem part = Some ri \<Longrightarrow> r \<in> set (rel_list (relationships ri))
     \<Longrightarrow> target_partname E (ri_baseURI ri) r = Inr pn'
     \<Longrightarrow> reachable_partname E pc base rels pn'"

text \<open>
  The list of a part collection and its dictionary hold the same parts, each under its own
  part name and once.
\<close>

definition pc_consistent :: "PartCollection \<Rightarrow> bool" where
  "pc_consistent pc \<longleftrightarrow>
     distinct (map partname (part_list pc))
   \<and> (\<forall>pn part. partname_dict pc pn = Some part \<longleftrightarrow> part \<in> set (part_list pc) \<and> partname part = pn)"

text \<open>The targets of a list of relationships, and of the relationships of a part, are loaded.\<close>

definition targets_loaded :: "env \<Rightarrow> PartCollection \<Rightarrow> string \<Rightarrow> Relationship list \<Rightarrow> bool" where
  "targets_loaded E pc base rels \<longleftrightarrow>
     (\<forall>r \<in> set rels. \<forall>pn. target_partname E base r = Inr pn \<longrightarrow> pn \<in> dom (partname_dict pc))"

definition part_closed :: "env \<Rightarrow> PartCollection \<Rightarrow> Part \<Rightarrow> bool" where
  "part_closed E pc part \<longleftrightarrow>
     (\<forall>ri. relsitem part = Some ri \<longrightarrow>
        targets_loaded E pc (ri_baseURI ri) (rel_list (relationships ri)))"

text \<open>
  What a successful \<^verbatim>\<open>loadparts\<close> leaves: a consistent collection that extends the one it
  started from, holds the targets of the relationships it was given, and in which the targets
  of every part it added are loaded too.
\<close>

definition loadparts_post ::
  "env \<Rightarrow> PartCollection \<Rightarrow> string \<Rightarrow> Relationship list \<Rightarrow> PartCollection \<Rightarrow> bool" where
  "loadparts_post E pc base rels pc1 \<longleftrightarrow>
     pc_consistent pc1
   \<and> partname_dict pc \<subseteq>\<^sub>m partname_dict pc1
   \<and> targets_loaded E pc1 base rels
   \<and> (\<forall>pn part. partname_dict pc1 pn = Some part \<longrightarrow> pn \<notin> dom (partname_dict pc)
        \<longrightarrow> part_closed E pc1 part)"

text \<open>
  A normalized absolute path: one or two leading slashes, then components joined by single
  slashes, none of them empty, \<open>.\<close> or \<open>..\<close>.
\<close>

definition canonical_partname :: "string \<Rightarrow> bool" where
  "canonical_partname p \<longleftrightarrow>
     (\<exists>n comps. p = replicate n CHR ''/'' @ join_slash comps \<and> (n = 1 \<or> n = 2)
        \<and> (\<forall>c \<in> set comps. c \<noteq> [] \<and> c \<noteq> ''.'' \<and> c \<noteq> ''..'' \<and> CHR ''/'' \<notin> set c))"

section \<open>The content types item, read and written\<close>



text \<open>
  The loop of \<^verbatim>\<open>ContentTypesItem.compose\<close> over the parts, on the two working dictionaries.
  The content type of a part is an attribute of its part type spec.
\<close>

fun compose_parts ::
  "env \<Rightarrow> registry \<Rightarrow> Part list \<Rightarrow> pydict \<times> pydict \<Rightarrow> error + pydict \<times> pydict" where
  "compose_parts E reg [] (ds, os) = Inr (ds, os)"
| "compose_parts E reg (part # parts) (ds, os) =
     (let ext = snd (splitext (partname part))
      in if ext = ''.xml''
         then (case attrs (objects reg (typespec part)) of
                 None \<Rightarrow> Inl AttributeError
               | Some a \<Rightarrow>
                   compose_parts E reg parts
                     (ds, AList.update (Some (partname part)) (Some (content_type a)) os))
         else (case default_content_types E ext of
                 Some ct \<Rightarrow>
                   compose_parts E reg parts (AList.update (Some (drop 1 ext)) (Some ct) ds, os)
               | None \<Rightarrow> Inl LookupError))"

text \<open>
  \<^verbatim>\<open>ContentTypesItem.compose\<close>; indexing the table of defaults with an extension it lacks
  raises \<^verbatim>\<open>KeyError\<close>.
\<close>

definition compose :: "env \<Rightarrow> registry \<Rightarrow> Part list \<Rightarrow> error + ContentTypesItem" where
  "compose E reg parts =
     (case (default_content_types E ''.rels'', default_content_types E ''.xml'') of
        (Some rels_ct, Some xml_ct) \<Rightarrow>
          (case compose_parts E reg parts
                  (AList.update (Some ''xml'') (Some xml_ct) [(Some ''rels'', Some rels_ct)], []) of
             Inl e \<Rightarrow> Inl e
           | Inr (ds, os) \<Rightarrow> Inr \<lparr>defaults = Some ds, overrides = Some os\<rparr>)
      | _ \<Rightarrow> Inl KeyError)"

text \<open>
  \<^verbatim>\<open>etree.SubElement\<close> with two attributes set; \<^verbatim>\<open>set\<close> raises \<^verbatim>\<open>TypeError\<close> on a name
  or value that is \<^verbatim>\<open>None\<close>.
\<close>

definition elm2 :: "string \<Rightarrow> string \<Rightarrow> pystr \<Rightarrow> string \<Rightarrow> pystr \<Rightarrow> error + xml" where
  "elm2 t k1 v1 k2 v2 =
     (case (v1, v2) of
        (Some a, Some b) \<Rightarrow> Inr (Element t [(k1, a), (k2, b)] [] [])
      | _ \<Rightarrow> Inl TypeError)"

text \<open>The elements for the sorted keys of a dictionary.\<close>

fun dict_elms :: "string \<Rightarrow> string \<Rightarrow> string \<Rightarrow> pydict \<Rightarrow> pystr list \<Rightarrow> error + xml list" where
  "dict_elms t k v d [] = Inr []"
| "dict_elms t k v d (key # keys) =
     (case map_of d key of
        None \<Rightarrow> Inl KeyError
      | Some val \<Rightarrow>
          (case elm2 t k key v val of
             Inl e \<Rightarrow> Inl e
           | Inr x \<Rightarrow>
               (case dict_elms t k v d keys of
                  Inl e \<Rightarrow> Inl e
                | Inr xs \<Rightarrow> Inr (x # xs))))"

text \<open>The \<^verbatim>\<open>element\<close> property of \<^verbatim>\<open>ContentTypesItem\<close>.\<close>

definition cti_element :: "env \<Rightarrow> ContentTypesItem \<Rightarrow> error + xml" where
  "cti_element E cti =
     (case dict_elms (qname E ''ct'' ''Default'') ''Extension'' ''ContentType''
             (case defaults cti of None \<Rightarrow> [] | Some ds \<Rightarrow> ds)
             (sort (remdups (map fst (case defaults cti of None \<Rightarrow> [] | Some ds \<Rightarrow> ds)))) of
        Inl e \<Rightarrow> Inl e
      | Inr dxs \<Rightarrow>
          (case dict_elms (qname E ''ct'' ''Override'') ''PartName'' ''ContentType''
                  (case overrides cti of None \<Rightarrow> [] | Some os \<Rightarrow> os)
                  (sort (remdups (map fst (case overrides cti of None \<Rightarrow> [] | Some os \<Rightarrow> os)))) of
             Inl e \<Rightarrow> Inl e
           | Inr oxs \<Rightarrow> Inr (Element (qname E ''ct'' ''Types'') [] [] (dxs @ oxs))))"

section \<open>Relationships items, written\<close>

text \<open>
  The \<^verbatim>\<open>element\<close> property of \<^verbatim>\<open>Relationship\<close>: an element with the bare tag
  \<^verbatim>\<open>Relationship\<close> and the three attributes.
\<close>

definition Relationship_element :: "Relationship \<Rightarrow> error + xml" where
  "Relationship_element r =
     (case (rId r, reltype r, target r) of
        (Some i, Some ty, Some tg) \<Rightarrow>
          Inr (Element ''Relationship'' [(''Id'', i), (''Type'', ty), (''Target'', tg)] [] [])
      | _ \<Rightarrow> Inl TypeError)"

fun Relationship_elements :: "Relationship list \<Rightarrow> error + xml list" where
  "Relationship_elements [] = Inr []"
| "Relationship_elements (r # rs) =
     (case Relationship_element r of
        Inl e \<Rightarrow> Inl e
      | Inr x \<Rightarrow>
          (case Relationship_elements rs of
             Inl e \<Rightarrow> Inl e
           | Inr xs \<Rightarrow> Inr (x # xs)))"

text \<open>The \<^verbatim>\<open>element\<close> property of \<^verbatim>\<open>RelationshipsItem\<close>.\<close>

definition RelationshipsItem_element :: "env \<Rightarrow> RelationshipsItem \<Rightarrow> error + xml" where
  "RelationshipsItem_element E ri =
     (case Relationship_elements (rel_list (relationships ri)) of
        Inl e \<Rightarrow> Inl e
      | Inr xs \<Rightarrow> Inr (Element (qname E ''pr'' ''Relationships'') [] [] xs))"

section \<open>Writing a zip archive\<close>

text \<open>
  \<^verbatim>\<open>ZipFileSystem.write_blob\<close> and \<^verbatim>\<open>write_element\<close>: the archive with the member appended.
  A \<^verbatim>\<open>DirectoryFileSystem\<close> has neither method.
\<close>

fun write_blob :: "FileSystem \<Rightarrow> string \<Rightarrow> string \<Rightarrow> error + FileSystem" where
  "write_blob (ZipFileSystem p ms) bytes itemURI =
     (if fs_contains (ZipFileSystem p ms) itemURI then Inl DuplicateKeyError
      else Inr (ZipFileSystem p (ms @ [(drop 1 itemURI, bytes)])))"
| "write_blob (DirectoryFileSystem p fs) bytes itemURI = Inl AttributeError"

definition write_element :: "env \<Rightarrow> FileSystem \<Rightarrow> xml \<Rightarrow> string \<Rightarrow> error + FileSystem" where
  "write_element E fs elm itemURI = write_blob fs (xml_tostring E elm) itemURI"

section \<open>The package\<close>

text \<open>
  What is at a path of the disk: a directory with the files below it, a zip archive with its
  members, or some other file. The disk is keyed by absolute, normalized paths. Next to what
  it holds, the disk says which paths the operating system lets the process open for writing:
  the directory of the path exists and the permissions allow creating the file there, or
  truncating the file that is there. A directory is never opened for writing.
\<close>

datatype node =
    Dir "(string \<times> string) list"
  | ZipFile "(string \<times> string) list"
  | OtherFile string





record Package =
  parts :: PartCollection
  pkg_relsitem :: "RelationshipsItem option"




text \<open>
  The loop of \<^verbatim>\<open>Package.save\<close> over the parts, and its body: the part item, then the
  relationships item of the part if it has one. Serializing \<^verbatim>\<open>None\<close> raises
  \<^verbatim>\<open>TypeError\<close>; what has been written stays in the archive when a step raises.
\<close>

definition save_part ::
  "env \<Rightarrow> registry \<Rightarrow> Part \<Rightarrow> FileSystem \<Rightarrow> (error + unit) \<times> FileSystem" where
  "save_part E reg part zipfs =
     (case format (objects reg (typespec part)) of
        Inl e \<Rightarrow> (Inl e, zipfs)
      | Inr fmt \<Rightarrow>
          (case (if fmt = ''xml''
                 then (case element part of
                         None \<Rightarrow> Inl TypeError
                       | Some elm \<Rightarrow> write_element E zipfs elm (partname part))
                 else (case blob part of
                         None \<Rightarrow> Inl TypeError
                       | Some bytes \<Rightarrow> write_blob zipfs bytes (partname part))) of
             Inl e \<Rightarrow> (Inl e, zipfs)
           | Inr zipfs' \<Rightarrow>
               (case relsitem part of
                  None \<Rightarrow> (Inr (), zipfs')
                | Some ri \<Rightarrow>
                    (case RelationshipsItem_element E ri of
                       Inl e \<Rightarrow> (Inl e, zipfs')
                     | Inr elm \<Rightarrow>
                         (case write_element E zipfs' elm (ri_itemURI ri) of
                            Inl e \<Rightarrow> (Inl e, zipfs')
                          | Inr zipfs'' \<Rightarrow> (Inr (), zipfs''))))))"

fun save_parts ::
  "env \<Rightarrow> registry \<Rightarrow> Part list \<Rightarrow> FileSystem \<Rightarrow> (error + unit) \<times> FileSystem" where
  "save_parts E reg [] zipfs = (Inr (), zipfs)"
| "save_parts E reg (part # ps) zipfs =
     (case save_part E reg part zipfs of
        (Inl e, zipfs') \<Rightarrow> (Inl e, zipfs')
      | (Inr _, zipfs') \<Rightarrow> save_parts E reg ps zipfs')"

text \<open>
  The writes of \<^verbatim>\<open>Package.save\<close> after the archive is created: the content types item, the
  package relationships item, the parts.
\<close>

definition save_items ::
  "env \<Rightarrow> registry \<Rightarrow> Package \<Rightarrow> FileSystem \<Rightarrow> (error + unit) \<times> FileSystem" where
  "save_items E reg pkg zipfs =
     (case compose E reg (part_list (parts pkg)) of
        Inl e \<Rightarrow> (Inl e, zipfs)
      | Inr cti \<Rightarrow>
          (case cti_element E cti of
             Inl e \<Rightarrow> (Inl e, zipfs)
           | Inr ct_elm \<Rightarrow>
               (case write_element E zipfs ct_elm ''/[Content_Types].xml'' of
                  Inl e \<Rightarrow> (Inl e, zipfs)
                | Inr zipfs1 \<Rightarrow>
                    (case pkg_relsitem pkg of
                       None \<Rightarrow> (Inl AttributeError, zipfs1)
                     | Some ri \<Rightarrow>
                         (case RelationshipsItem_element E ri of
                            Inl e \<Rightarrow> (Inl e, zipfs1)
                          | Inr rels_elm \<Rightarrow>
                              (case write_element E zipfs1 rels_elm ''/_rels/.rels'' of
                                 Inl e \<Rightarrow> (Inl e, zipfs1)
                               | Inr zipfs2 \<Rightarrow>
                                   save_parts E reg (part_list (parts pkg)) zipfs2))))))"


text \<open>
  The runs of \<^verbatim>\<open>loadparts\<close> that return without an exception, with the state they start
  from and the state they leave: a relationship whose target is loaded is passed over; a new
  part without relationships is loaded and the loop goes on; a new part with relationships
  is loaded, the call on its relationships runs, and the loop goes on from where that left.
\<close>

inductive loadparts_run ::
  "env \<Rightarrow> FileSystem \<Rightarrow> ContentTypesItem \<Rightarrow> string \<Rightarrow> Relationship list
     \<Rightarrow> PartCollection \<times> registry \<Rightarrow> PartCollection \<times> registry \<Rightarrow> bool"
  for E :: env and fs :: FileSystem and cti :: ContentTypesItem where
  none: "loadparts_run E fs cti base [] s s"
| skip: "target_partname E base r = Inr pn \<Longrightarrow> pn \<in> dom (partname_dict (fst s))
     \<Longrightarrow> loadparts_run E fs cti base rels s s1
     \<Longrightarrow> loadparts_run E fs cti base (r # rels) s s1"
| leaf: "target_partname E base r = Inr pn \<Longrightarrow> pn \<notin> dom (partname_dict (fst s))
     \<Longrightarrow> cti_getitem cti pn = Inr ct \<Longrightarrow> loadpart E fs pn ct s = (Inr part, s')
     \<Longrightarrow> relsitem part = None \<or> (\<exists>ri. relsitem part = Some ri \<and> rel_list (relationships ri) = [])
     \<Longrightarrow> loadparts_run E fs cti base rels s' s1
     \<Longrightarrow> loadparts_run E fs cti base (r # rels) s s1"
| node: "target_partname E base r = Inr pn \<Longrightarrow> pn \<notin> dom (partname_dict (fst s))
     \<Longrightarrow> cti_getitem cti pn = Inr ct \<Longrightarrow> loadpart E fs pn ct s = (Inr part, s')
     \<Longrightarrow> relsitem part = Some ri \<Longrightarrow> rel_list (relationships ri) \<noteq> []
     \<Longrightarrow> loadparts_run E fs cti (ri_baseURI ri) (rel_list (relationships ri)) s' s''
     \<Longrightarrow> loadparts_run E fs cti base rels s'' s1
     \<Longrightarrow> loadparts_run E fs cti base (r # rels) s s1"

text \<open>
  A later registry of the same process: what was cached is still cached, and an instance that
  was initialized is unchanged.
\<close>

definition reg_le :: "registry \<Rightarrow> registry \<Rightarrow> bool" where
  "reg_le r r' \<longleftrightarrow>
     instances r \<subseteq>\<^sub>m instances r'
   \<and> (\<forall>k inst. instances r k = Some inst \<and> loaded (objects r inst) \<longrightarrow>
         objects r' inst = objects r inst)"

text \<open>
  Every cached instance has been through \<^verbatim>\<open>__init__\<close>, and one that has attributes is
  cached under its own content type.
\<close>

definition registry_typed :: "registry \<Rightarrow> bool" where
  "registry_typed r \<longleftrightarrow>
     (\<forall>k inst. instances r k = Some inst \<longrightarrow>
        loaded (objects r inst)
        \<and> (\<forall>a. attrs (objects r inst) = Some a \<longrightarrow> k = Some (content_type a)))"

text \<open>
  An item URI as a zip archive lists it: a slash, then a member name that does not end in a
  slash. And: the file system has an item at a URI, with these bytes.
\<close>

definition item_like :: "string \<Rightarrow> bool" where
  "item_like uri \<longleftrightarrow>
     take 1 uri = ''/'' \<and> \<not> (drop 1 uri \<noteq> [] \<and> last (drop 1 uri) = CHR ''/'')"

definition fs_holds :: "FileSystem \<Rightarrow> string \<Rightarrow> string \<Rightarrow> bool" where
  "fs_holds fs uri bytes \<longleftrightarrow> fs_contains fs uri \<and> getstream fs uri = Inr bytes"

text \<open>
  The item URIs \<^verbatim>\<open>save\<close> writes for a part, and all the item URIs it writes for a
  package, in the order of the writes. And: an archive is another one with members appended
  whose names are all in a given set.
\<close>

definition part_uris :: "Part \<Rightarrow> string list" where
  "part_uris part =
     partname part # (case relsitem part of None \<Rightarrow> [] | Some ri \<Rightarrow> [ri_itemURI ri])"


definition appended :: "FileSystem \<Rightarrow> FileSystem \<Rightarrow> string set \<Rightarrow> bool" where
  "appended z z' N \<longleftrightarrow>
     path z' = path z \<and> (\<exists>w. members z' = members z @ w \<and> fst ` set w \<subseteq> N)"

text \<open>
  What the archive holds once a part is written: the serialized element or the blob under
  the part name, the serialized relationships under the item URI of the relationships item.
\<close>

definition part_written :: "env \<Rightarrow> registry \<Rightarrow> FileSystem \<Rightarrow> Part \<Rightarrow> bool" where
  "part_written E reg z part \<longleftrightarrow>
     (case format (objects reg (typespec part)) of
        Inl e \<Rightarrow> False
      | Inr fmt \<Rightarrow>
          if fmt = ''xml''
          then (case element part of
                  None \<Rightarrow> False
                | Some elm \<Rightarrow> fs_holds z (partname part) (xml_tostring E elm))
          else (case blob part of
                  None \<Rightarrow> False
                | Some bytes \<Rightarrow> fs_holds z (partname part) bytes))
   \<and> (case relsitem part of
         None \<Rightarrow> True
       | Some ri \<Rightarrow>
           (case RelationshipsItem_element E ri of
              Inl e \<Rightarrow> False
            | Inr elm \<Rightarrow> fs_holds z (ri_itemURI ri) (xml_tostring E elm)))"

text \<open>
  What the round trip asks of the XML library: that parsing the serialization of an element
  gives the element back; for a relationships item, that the \<^verbatim>\<open>Relationship\<close> elements
  found in what is parsed carry the \<^verbatim>\<open>Id\<close>, \<^verbatim>\<open>Type\<close> and \<^verbatim>\<open>Target\<close> of the relationships
  written, in their order.
\<close>

definition reads_back :: "env \<Rightarrow> xml \<Rightarrow> bool" where
  "reads_back E elm \<longleftrightarrow> xml_parse E (xml_tostring E elm) = Some elm"

definition rels_read_back :: "env \<Rightarrow> RelationshipsItem \<Rightarrow> bool" where
  "rels_read_back E ri \<longleftrightarrow>
     (case RelationshipsItem_element E ri of
        Inl e \<Rightarrow> True
      | Inr elm \<Rightarrow>
          (case xml_parse E (xml_tostring E elm) of
             None \<Rightarrow> False
           | Some elm' \<Rightarrow>
               map Relationship_init (findall elm' (qname E ''pr'' ''Relationship''))
                 = rel_list (relationships ri)))"

section \<open>A small package for the examples\<close>

definition slide_ct :: string where
  "slide_ct = ''application/vnd.openxmlformats-officedocument.presentationml.slide+xml''"

definition layout_ct :: string where
  "layout_ct = ''application/vnd.openxmlformats-officedocument.presentationml.slideLayout+xml''"

definition theme_ct :: string where
  "theme_ct = ''application/vnd.openxmlformats-officedocument.theme+xml''"

definition example_parttypes :: "string \<rightharpoonup> ptsdict" where
  "example_parttypes =
     [slide_ct \<mapsto>
        \<lparr>basename = ''slide'', ext = ''.xml'', cardinality = ''multiple'', required = False,
         baseURI = ''/ppt/slides'', has_rels = ''always'',
         rel_type = ''http://schemas.openxmlformats.org/officeDocument/2006/relationships/slide''\<rparr>,
      layout_ct \<mapsto>
        \<lparr>basename = ''slideLayout'', ext = ''.xml'', cardinality = ''multiple'', required = True,
         baseURI = ''/ppt/slideLayouts'', has_rels = ''always'',
         rel_type = ''http://schemas.openxmlformats.org/officeDocument/2006/relationships/slideLayout''\<rparr>,
      theme_ct \<mapsto>
        \<lparr>basename = ''theme'', ext = ''.xml'', cardinality = ''multiple'', required = True,
         baseURI = ''/ppt/theme'', has_rels = ''optional'',
         rel_type = ''http://schemas.openxmlformats.org/officeDocument/2006/relationships/theme''\<rparr>,
      ''image/png'' \<mapsto>
        \<lparr>basename = ''image'', ext = ''.png'', cardinality = ''multiple'', required = False,
         baseURI = ''/ppt/media'', has_rels = ''never'',
         rel_type = ''http://schemas.openxmlformats.org/officeDocument/2006/relationships/image''\<rparr>]"

definition ct_ns :: string where
  "ct_ns = ''http://schemas.openxmlformats.org/package/2006/content-types''"

definition pr_ns :: string where
  "pr_ns = ''http://schemas.openxmlformats.org/package/2006/relationships''"

definition example_nsmap :: "string \<Rightarrow> string" where
  "example_nsmap prefix = (if prefix = ''ct'' then ct_ns else if prefix = ''pr'' then pr_ns else [])"

definition example_default_content_types :: "string \<rightharpoonup> string" where
  "example_default_content_types =
     [''.rels'' \<mapsto> ''application/vnd.openxmlformats-package.relationships+xml'',
      ''.xml'' \<mapsto> ''application/xml'',
      ''.png'' \<mapsto> ''image/png'']"

text \<open>
  The documents of a package with one slide, its layout and one image; the layout refers back
  to the slide, so the relationship graph has a cycle.
\<close>

definition Default_elm :: "string \<Rightarrow> string \<Rightarrow> xml" where
  "Default_elm e ct =
     Element (''{'' @ ct_ns @ ''}Default'') [(''Extension'', e), (''ContentType'', ct)] [] []"

definition Override_elm :: "string \<Rightarrow> string \<Rightarrow> xml" where
  "Override_elm pn ct =
     Element (''{'' @ ct_ns @ ''}Override'') [(''PartName'', pn), (''ContentType'', ct)] [] []"

definition Relationship_elm :: "string \<Rightarrow> string \<Rightarrow> string \<Rightarrow> xml" where
  "Relationship_elm i ty tg =
     Element (''{'' @ pr_ns @ ''}Relationship'') [(''Id'', i), (''Type'', ty), (''Target'', tg)] [] []"

definition example_types :: xml where
  "example_types =
     Element (''{'' @ ct_ns @ ''}Types'') [] []
       [Default_elm ''rels'' ''application/vnd.openxmlformats-package.relationships+xml'',
        Default_elm ''xml'' ''application/xml'',
        Default_elm ''png'' ''image/png'',
        Override_elm ''/ppt/slides/slide1.xml'' slide_ct,
        Override_elm ''/ppt/slideLayouts/slideLayout1.xml'' layout_ct]"

definition example_package_rels :: xml where
  "example_package_rels =
     Element (''{'' @ pr_ns @ ''}Relationships'') [] []
       [Relationship_elm ''rId1'' ''slide'' ''ppt/slides/slide1.xml'']"

definition example_slide_rels :: xml where
  "example_slide_rels =
     Element (''{'' @ pr_ns @ ''}Relationships'') [] []
       [Relationship_elm ''rId1'' ''slideLayout'' ''../slideLayouts/slideLayout1.xml'']"

definition example_layout_rels :: xml where
  "example_layout_rels =
     Element (''{'' @ pr_ns @ ''}Relationships'') [] []
       [Relationship_elm ''rId1'' ''slide'' ''../slides/slide1.xml'',
        Relationship_elm ''rId2'' ''image'' ''../media/image1.png'']"

definition example_slide :: xml where
  "example_slide = Element ''sld'' [] [] [Element ''cSld'' [(''name'', ''Title'')] ''Hello'' []]"

definition example_layout :: xml where
  "example_layout = Element ''sldLayout'' [(''type'', ''title'')] [] []"

text \<open>The parser of the examples knows the bytes of these six documents and nothing else.\<close>

definition example_documents :: "(string \<times> xml) list" where
  "example_documents =
     [(''<Types>'', example_types),
      (''<Relationships:package>'', example_package_rels),
      (''<Relationships:slide1>'', example_slide_rels),
      (''<Relationships:slideLayout1>'', example_layout_rels),
      (''<sld>'', example_slide),
      (''<sldLayout>'', example_layout)]"

definition example_tostring :: "xml \<Rightarrow> string" where
  "example_tostring e =
     (case find (\<lambda>(bytes, doc). doc = e) example_documents of
        Some (bytes, doc) \<Rightarrow> bytes
      | None \<Rightarrow> [])"

definition example_env :: env where
  "example_env =
     \<lparr>pml_parttypes = example_parttypes,
      default_content_types = example_default_content_types,
      nsmap = example_nsmap,
      getcwd = ''/home/user'',
      xml_parse = map_of example_documents,
      xml_tostring = example_tostring\<rparr>"

definition example_fs :: FileSystem where
  "example_fs =
     ZipFileSystem ''/home/user/deck.pptx''
       [(''[Content_Types].xml'', ''<Types>''),
        (''_rels/.rels'', ''<Relationships:package>''),
        (''ppt/'', []),
        (''ppt/slides/slide1.xml'', ''<sld>''),
        (''ppt/slides/_rels/slide1.xml.rels'', ''<Relationships:slide1>''),
        (''ppt/slideLayouts/slideLayout1.xml'', ''<sldLayout>''),
        (''ppt/slideLayouts/_rels/slideLayout1.xml.rels'', ''<Relationships:slideLayout1>''),
        (''ppt/media/image1.png'', ''PNG-bytes'')]"



text \<open>The same archive without the relationships item of the slide.\<close>

definition example_fs_norels :: FileSystem where
  "example_fs_norels =
     ZipFileSystem ''/home/user/broken.pptx''
       [(''[Content_Types].xml'', ''<Types>''),
        (''_rels/.rels'', ''<Relationships:package>''),
        (''ppt/slides/slide1.xml'', ''<sld>''),
        (''ppt/slideLayouts/slideLayout1.xml'', ''<sldLayout>''),
        (''ppt/slideLayouts/_rels/slideLayout1.xml.rels'', ''<Relationships:slideLayout1>''),
        (''ppt/media/image1.png'', ''PNG-bytes'')]"

text \<open>
  An archive with a part directly under the package root and the same part in a directory,
  each with its relationships item in the \<^verbatim>\<open>_rels\<close> directory next to it.
\<close>

definition example_fs_flat :: FileSystem where
  "example_fs_flat =
     ZipFileSystem ''/home/user/flat.pptx''
       [(''slide1.xml'', ''<sld>''),
        (''_rels/slide1.xml.rels'', ''<Relationships:slide1>''),
        (''d/slide1.xml'', ''<sld>''),
        (''d/_rels/slide1.xml.rels'', ''<Relationships:slide1>'')]"



section \<open>Facts about the path functions\<close>

lemma rfind_notin: "c \<notin> set p \<Longrightarrow> rfind p c = - 1"
  by (simp add: rfind_def)

lemma rfind_last_occurrence: "c \<notin> set e \<Longrightarrow> rfind (xs @ c # e) c = int (length xs)"
proof -
  assume e: "c \<notin> set e"
  have "takeWhile (\<lambda>x. x \<noteq> c) (rev e @ c # rev xs) = rev e"
    using e by (subst takeWhile_append2) auto
  then show ?thesis by (simp add: rfind_def)
qed

lemma splitext_named:
  assumes dir: "dir = [] \<or> last dir = CHR ''/''"
    and name: "CHR ''/'' \<notin> set name" "\<exists>ch \<in> set name. ch \<noteq> CHR ''.''"
    and e: "CHR ''/'' \<notin> set e" "CHR ''.'' \<notin> set e"
  shows "splitext (dir @ name @ CHR ''.'' # e) = (dir @ name, CHR ''.'' # e)"
proof -
  let ?p = "dir @ name @ CHR ''.'' # e"
  have dot: "rfind ?p CHR ''.'' = int (length dir + length name)"
    using rfind_last_occurrence [OF e(2), of "dir @ name"] by simp
  have sep: "rfind ?p CHR ''/'' + 1 = int (length dir)"
  proof (cases "dir = []")
    case True
    then show ?thesis using name(1) e(1) by (simp add: rfind_notin)
  next
    case False
    with dir obtain d where d: "dir = d @ ''/''"
      by (metis append_butlast_last_id)
    have "CHR ''/'' \<notin> set (name @ CHR ''.'' # e)" using name(1) e(1) by simp
    from rfind_last_occurrence [OF this, of d] show ?thesis by (simp add: d)
  qed
  have sep': "rfind ?p CHR ''/'' = int (length dir) - 1" using sep by simp
  have nonempty: "name \<noteq> []" using name(2) by auto
  show ?thesis
    unfolding splitext_def Let_def dot sep'
    using name(2) nonempty by simp
qed

lemma partname_ext_named:
  assumes "dir = [] \<or> last dir = CHR ''/''"
    and "CHR ''/'' \<notin> set name" "\<exists>ch \<in> set name. ch \<noteq> CHR ''.''"
    and "CHR ''/'' \<notin> set e" "CHR ''.'' \<notin> set e"
  shows "partname_ext (dir @ name @ CHR ''.'' # e) = e"
  by (simp add: partname_ext_def splitext_named [OF assms])

lemma split_at_last:
  "\<exists>front rest. p = front @ rest \<and> c \<notin> set rest
     \<and> rest = rev (takeWhile (\<lambda>x. x \<noteq> c) (rev p))
     \<and> (front = [] \<or> last front = c) \<and> (c \<in> set p \<longrightarrow> front \<noteq> [])"
proof -
  let ?b = "rev (takeWhile (\<lambda>x. x \<noteq> c) (rev p))"
  let ?f = "rev (dropWhile (\<lambda>x. x \<noteq> c) (rev p))"
  have 1: "p = ?f @ ?b"
  proof -
    have "rev p = takeWhile (\<lambda>x. x \<noteq> c) (rev p) @ dropWhile (\<lambda>x. x \<noteq> c) (rev p)" by simp
    then have "rev (rev p) = rev (takeWhile (\<lambda>x. x \<noteq> c) (rev p) @ dropWhile (\<lambda>x. x \<noteq> c) (rev p))"
      by (rule arg_cong)
    then show ?thesis by (simp only: rev_rev_ident rev_append)
  qed
  have 2: "c \<notin> set ?b"
  proof
    assume "c \<in> set ?b"
    then have "c \<in> set (takeWhile (\<lambda>x. x \<noteq> c) (rev p))" by simp
    then show False by (auto dest: set_takeWhileD)
  qed
  have 3: "?f = [] \<or> last ?f = c"
  proof (cases "dropWhile (\<lambda>x. x \<noteq> c) (rev p) = []")
    case True
    then show ?thesis by simp
  next
    case False
    then have "hd (dropWhile (\<lambda>x. x \<noteq> c) (rev p)) = c"
      using hd_dropWhile [of "\<lambda>x. x \<noteq> c" "rev p"] by simp
    then show ?thesis using False by (simp add: last_rev)
  qed
  have 4: "c \<in> set p \<longrightarrow> ?f \<noteq> []"
  proof
    assume "c \<in> set p"
    show "?f \<noteq> []"
    proof
      assume "?f = []"
      with 1 have "p = ?b" by simp
      with 2 \<open>c \<in> set p\<close> show False by metis
    qed
  qed
  from 1 2 3 4 show ?thesis by blast
qed

lemma rfind_bounds: "- 1 \<le> rfind p c" "rfind p c < int (length p)"
proof -
  have "length (takeWhile (\<lambda>x. x \<noteq> c) (rev p)) \<le> length (rev p)"
    by (rule length_takeWhile_le)
  then show "- 1 \<le> rfind p c" by (simp add: rfind_def)
  show "rfind p c < int (length p)" by (simp add: rfind_def)
qed

lemma rfind_append_notin:
  assumes "c \<notin> set ys"
  shows "rfind (xs @ ys) c = rfind xs c"
proof (cases "c \<in> set xs")
  case False
  then show ?thesis using assms by (simp add: rfind_notin)
next
  case True
  then obtain front rest where fb: "xs = front @ rest" "c \<notin> set rest" "front \<noteq> []"
    "front = [] \<or> last front = c"
    using split_at_last [of xs c] by blast
  then obtain f where f: "front = f @ [c]" by (metis append_butlast_last_id)
  have a: "rfind (f @ c # (rest @ ys)) c = int (length f)"
    using assms fb(2) by (intro rfind_last_occurrence) simp
  have b: "rfind (f @ c # rest) c = int (length f)"
    using fb(2) by (intro rfind_last_occurrence) simp
  show ?thesis using a b by (simp add: fb(1) f)
qed

lemma splitext_dotted:
  assumes dir: "dir = [] \<or> last dir = CHR ''/''"
    and stem: "CHR ''/'' \<notin> set stem"
    and e: "CHR ''/'' \<notin> set e" "CHR ''.'' \<notin> set e"
  shows "splitext (dir @ stem @ CHR ''.'' # e)
       = (if \<exists>ch \<in> set stem. ch \<noteq> CHR ''.'' then (dir @ stem, CHR ''.'' # e)
          else (dir @ stem @ CHR ''.'' # e, []))"
proof -
  let ?p = "dir @ stem @ CHR ''.'' # e"
  have dot: "rfind ?p CHR ''.'' = int (length dir + length stem)"
    using rfind_last_occurrence [OF e(2), of "dir @ stem"] by simp
  have sep: "rfind ?p CHR ''/'' + 1 = int (length dir)"
  proof (cases "dir = []")
    case True
    then show ?thesis using stem e(1) by (simp add: rfind_notin)
  next
    case False
    with dir obtain d where d: "dir = d @ ''/''"
      by (metis append_butlast_last_id)
    have "CHR ''/'' \<notin> set (stem @ CHR ''.'' # e)" using stem e(1) by simp
    from rfind_last_occurrence [OF this, of d] show ?thesis by (simp add: d)
  qed
  have sep': "rfind ?p CHR ''/'' = int (length dir) - 1" using sep by simp
  show ?thesis
    unfolding splitext_def Let_def dot sep'
    by simp
qed

lemma splitext_undotted:
  assumes dir: "dir = [] \<or> last dir = CHR ''/''"
    and name: "CHR ''/'' \<notin> set name" "CHR ''.'' \<notin> set name"
  shows "splitext (dir @ name) = (dir @ name, [])"
proof -
  have "rfind (dir @ name) CHR ''.'' \<le> rfind (dir @ name) CHR ''/''"
  proof (cases "dir = []")
    case True
    then show ?thesis using name by (simp add: rfind_notin)
  next
    case False
    with dir obtain d where d: "dir = d @ ''/''"
      by (metis append_butlast_last_id)
    have s: "rfind (d @ CHR ''/'' # name) CHR ''/'' = int (length d)"
      using name(1) by (rule rfind_last_occurrence)
    have "rfind (d @ (CHR ''/'' # name)) CHR ''.'' = rfind d CHR ''.''"
      using name(2) by (intro rfind_append_notin) simp
    moreover have "rfind d CHR ''.'' < int (length d)" by (rule rfind_bounds)
    ultimately show ?thesis using s by (simp add: d)
  qed
  then show ?thesis by (simp add: splitext_def Let_def)
qed

lemma partname_ext_as_written: "partname_ext p = extension_as_written p"
proof -
  obtain dir name where p: "p = dir @ name" and name: "CHR ''/'' \<notin> set name"
    and lc: "name = last_component p" and dir: "dir = [] \<or> last dir = CHR ''/''"
    using split_at_last [of p "CHR ''/''"] unfolding last_component_def by blast
  show ?thesis
  proof (cases "CHR ''.'' \<in> set name")
    case False
    then have "splitext p = (p, [])" using splitext_undotted [OF dir name] by (simp add: p)
    then show ?thesis using False lc [symmetric]
      by (simp add: partname_ext_def extension_as_written_def Let_def)
  next
    case True
    obtain front e where n: "name = front @ e" and e: "CHR ''.'' \<notin> set e"
      and ee: "e = rev (takeWhile (\<lambda>x. x \<noteq> CHR ''.'') (rev name))"
      and front: "front = [] \<or> last front = CHR ''.''" "front \<noteq> []"
      using split_at_last [of name "CHR ''.''"] True by blast
    then obtain stem where st: "front = stem @ ''.''" by (metis append_butlast_last_id)
    have nm: "name = stem @ CHR ''.'' # e" using n st by simp
    have s1: "CHR ''/'' \<notin> set stem" and s2: "CHR ''/'' \<notin> set e" using name nm by auto
    have sp: "splitext p
        = (if \<exists>ch \<in> set stem. ch \<noteq> CHR ''.'' then (dir @ stem, CHR ''.'' # e)
           else (dir @ stem @ CHR ''.'' # e, []))"
      using splitext_dotted [OF dir s1 s2 e] by (simp add: p nm)
    have len: "length name - length e - 1 = length stem" by (simp add: nm)
    have tk: "take (length stem) name = stem" by (simp add: nm)
    have "extension_as_written p = (if \<exists>ch \<in> set stem. ch \<noteq> CHR ''.'' then e else [])"
      unfolding extension_as_written_def Let_def lc [symmetric] ee [symmetric] len tk
      using True by simp
    then show ?thesis by (simp add: partname_ext_def sp)
  qed
qed

lemma not_all_slashes:
  assumes "dir \<noteq> []" "last dir \<noteq> CHR ''/''"
  shows "dir @ ''/'' \<noteq> replicate n CHR ''/''"
proof
  assume eq: "dir @ ''/'' = replicate n CHR ''/''"
  have "last dir \<in> set (dir @ ''/'')" using assms(1) by simp
  then have "last dir \<in> set (replicate n CHR ''/'')" by (simp only: eq)
  then have "last dir = CHR ''/''" by (simp split: if_splits)
  with assms(2) show False by simp
qed

lemma rstrip_slash_dir:
  assumes "dir \<noteq> []" "last dir \<noteq> CHR ''/''"
  shows "rstrip_slash (dir @ ''/'') = dir"
proof -
  obtain ys y where d: "dir = ys @ [y]" using assms(1) by (metis rev_exhaust)
  then have "y \<noteq> CHR ''/''" using assms(2) by simp
  then show ?thesis by (simp add: rstrip_slash_def d)
qed

lemma split_path_dir_name:
  assumes dir: "dir \<noteq> []" "last dir \<noteq> CHR ''/''" and name: "CHR ''/'' \<notin> set name"
  shows "split_path (dir @ ''/'' @ name) = (dir, name)"
proof -
  have r: "rfind (dir @ CHR ''/'' # name) CHR ''/'' = int (length dir)"
    using rfind_last_occurrence [OF name, of dir] by simp
  have i: "nat (rfind (dir @ CHR ''/'' # name) CHR ''/'' + 1) = Suc (length dir)"
    by (simp only: r)
  have tk: "take (Suc (length dir)) (dir @ CHR ''/'' # name) = dir @ ''/''" by simp
  have dr: "drop (Suc (length dir)) (dir @ CHR ''/'' # name) = name" by simp
  have ne: "dir @ ''/'' \<noteq> replicate (length (dir @ ''/'')) CHR ''/''"
    by (rule not_all_slashes [OF dir])
  have "split_path (dir @ CHR ''/'' # name) = (dir, name)"
    unfolding split_path_def Let_def i tk dr
    using ne rstrip_slash_dir [OF dir] by simp
  then show ?thesis by simp
qed

section \<open>Content type resolution\<close>

text \<open>
  C10. On a content types item on which neither \<^verbatim>\<open>load\<close> nor \<^verbatim>\<open>compose\<close> has run (both
  dictionaries still \<^verbatim>\<open>None\<close>), looking up any part name raises \<^verbatim>\<open>LookupError\<close>: no
  value is returned and no other exception escapes.
\<close>

theorem cti_getitem_before_load:
  "cti_getitem ContentTypesItem_init pn = Inl LookupError"
  by (simp add: cti_getitem_def ContentTypesItem_init_def)

text \<open>
  C4, the claim as stated fails: with the default \<open>xml\<close> and no override, the part name
  \<^verbatim>\<open>/ppt/foo.XML\<close> resolves under the specification's lower-casing rule, while
  \<^verbatim>\<open>__getitem__\<close> looks the extension \<open>XML\<close> up as written and raises \<^verbatim>\<open>LookupError\<close>.
\<close>

theorem cti_getitem_lowercase_counterexample:
  "cti_getitem \<lparr>defaults = Some [(Some ''xml'', Some ''application/xml'')], overrides = Some []\<rparr>
       ''/ppt/foo.XML'' = Inl LookupError
   \<and> resolve_spec [(Some ''xml'', Some ''application/xml'')] [] ''/ppt/foo.XML''
       = Inr (Some ''application/xml'')"
  by code_simp

text \<open>
  C4, amended. On a populated content types item, \<^verbatim>\<open>cti[p]\<close> is, for every item path
  \<open>p\<close>: the override of \<open>p\<close> when there is one, whatever the defaults hold; otherwise the
  default registered for the extension of \<open>p\<close> exactly as written, in the case it has in
  \<open>p\<close>; and \<^verbatim>\<open>LookupError\<close> when neither dictionary matches. The extension is the text after
  the last dot of the last path component when something other than dots comes before that
  dot, and the empty string otherwise, so that a name without an extension is looked up under
  the empty key.
\<close>

theorem cti_getitem_resolution:
  assumes "defaults cti = Some ds" and "overrides cti = Some os"
  shows "cti_getitem cti p =
           (case map_of os (Some p) of
              Some ct \<Rightarrow> Inr ct
            | None \<Rightarrow>
                (case map_of ds (Some (extension_as_written p)) of
                   Some ct \<Rightarrow> Inr ct
                 | None \<Rightarrow> Inl LookupError))"
  using assms
  by (auto simp: cti_getitem_def partname_ext_as_written split: option.splits)

theorem cti_getitem_resolution_witness:
  "cti_getitem \<lparr>defaults = Some [(Some ''xml'', Some ''application/xml'')],
                overrides = Some [(Some ''/ppt/foo.xml'', Some ''application/vnd.custom+xml'')]\<rparr>
       ''/ppt/foo.xml'' = Inr (Some ''application/vnd.custom+xml'')
   \<and> cti_getitem \<lparr>defaults = Some [(Some ''xml'', Some ''application/xml'')],
                  overrides = Some [(Some ''/ppt/foo.xml'', Some ''application/vnd.custom+xml'')]\<rparr>
       ''/ppt/bar.xml'' = Inr (Some ''application/xml'')
   \<and> cti_getitem \<lparr>defaults = Some [(Some ''xml'', Some ''application/xml'')],
                  overrides = Some [(Some ''/ppt/foo.xml'', Some ''application/vnd.custom+xml'')]\<rparr>
       ''/ppt/bar.XML'' = Inl LookupError
   \<and> cti_getitem \<lparr>defaults = Some [(Some ''xml'', Some ''application/xml'')],
                  overrides = Some [(Some ''/ppt/foo.xml'', Some ''application/vnd.custom+xml'')]\<rparr>
       ''/ppt.d/noext'' = Inl LookupError
   \<and> cti_getitem \<lparr>defaults = Some [(Some ''xml'', Some ''application/xml'')],
                  overrides = Some [(Some ''/ppt/foo.xml'', Some ''application/vnd.custom+xml'')]\<rparr>
       ''/ppt/.xml'' = Inl LookupError"
proof -
  let ?ds = "[(Some ''xml'', Some ''application/xml'')]"
  let ?os = "[(Some ''/ppt/foo.xml'', Some ''application/vnd.custom+xml'')]"
  note r = cti_getitem_resolution [of "\<lparr>defaults = Some ?ds, overrides = Some ?os\<rparr>" ?ds ?os]
  have e: "extension_as_written ''/ppt/bar.xml'' = ''xml''"
    "extension_as_written ''/ppt/bar.XML'' = ''XML''"
    "extension_as_written ''/ppt.d/noext'' = []"
    "extension_as_written ''/ppt/.xml'' = []"
    by code_simp+
  show ?thesis
    using r [of "''/ppt/foo.xml''"] r [of "''/ppt/bar.xml''"] r [of "''/ppt/bar.XML''"]
      r [of "''/ppt.d/noext''"] r [of "''/ppt/.xml''"]
    by (simp add: e)
qed

section \<open>The part type spec cache\<close>

lemma registry_inv_init: "registry_inv E registry_init"
  by (simp add: registry_inv_def registry_init_def bij_betw_def)

lemma bij_betw_cache_insert:
  assumes b: "bij_betw (\<lambda>k. the (m k)) (dom m) {..<n}" and k: "m k = None"
  shows "bij_betw (\<lambda>k'. the ((m(k \<mapsto> n)) k')) (dom (m(k \<mapsto> n))) {..<Suc n}"
proof -
  have notin: "k \<notin> dom m" using k by auto
  have eq: "\<And>k'. k' \<in> dom m \<Longrightarrow> the ((m(k \<mapsto> n)) k') = the (m k')"
    using notin by auto
  have b': "bij_betw (\<lambda>k'. the ((m(k \<mapsto> n)) k')) (dom m) {..<n}"
    using b eq by (subst bij_betw_cong [where g = "\<lambda>k. the (m k)"]) auto
  have "bij_betw (\<lambda>k'. the ((m(k \<mapsto> n)) k')) (dom m \<union> {k})
          ({..<n} \<union> {(\<lambda>k'. the ((m(k \<mapsto> n)) k')) k})"
    by (rule notIn_Un_bij_betw [OF notin _ b']) simp
  then show ?thesis by (simp add: lessThan_Suc)
qed

lemma cached_below:
  assumes "bij_betw (\<lambda>k. the (m k)) (dom m) {..<n}" and "m k = Some i"
  shows "i < n"
  using assms bij_betw_apply [OF assms(1), of k] by auto

lemma registry_inv_call:
  assumes inv: "registry_inv E reg"
  shows "registry_inv E (snd (PartTypeSpec_call E ct reg))"
proof (cases "instances reg ct")
  case (Some inst)
  show ?thesis
  proof (cases "loaded (objects reg inst)")
    case True
    then show ?thesis using Some inv
      by (simp add: PartTypeSpec_call_def PartTypeSpec_new_def PartTypeSpec_init_def)
  next
    case False
    have unreg: "\<And>c. ct = Some c \<Longrightarrow> pml_parttypes E c = None"
    proof (rule ccontr)
      fix c assume c: "ct = Some c" and "pml_parttypes E c \<noteq> None"
      then obtain row where "pml_parttypes E c = Some row" by auto
      with inv Some c have "loaded (objects reg inst)" by (auto simp: registry_inv_def)
      with False show False by simp
    qed
    have other: "\<And>c inst'. instances reg (Some c) = Some inst' \<Longrightarrow> pml_parttypes E c \<noteq> None
        \<Longrightarrow> inst' \<noteq> inst"
    proof
      fix c inst' assume a: "instances reg (Some c) = Some inst'" "pml_parttypes E c \<noteq> None" "inst' = inst"
      then obtain row where "pml_parttypes E c = Some row" by auto
      with inv a have "loaded (objects reg inst)" by (auto simp: registry_inv_def)
      with False show False by simp
    qed
    show ?thesis
    proof (cases ct)
      case None
      then show ?thesis using Some False inv other
        by (auto simp: PartTypeSpec_call_def PartTypeSpec_new_def PartTypeSpec_init_def
              registry_inv_def Let_def)
    next
      case (Some c)
      then show ?thesis using \<open>instances reg ct = Some inst\<close> False inv other unreg [OF Some]
        by (auto simp: PartTypeSpec_call_def PartTypeSpec_new_def PartTypeSpec_init_def
              registry_inv_def Let_def)
    qed
  qed
next
  case None
  let ?n = "ninstances reg"
  have b: "bij_betw (\<lambda>k. the (instances reg k)) (dom (instances reg)) {..<?n}"
    using inv by (simp add: registry_inv_def)
  have fresh: "\<And>k i. instances reg k = Some i \<Longrightarrow> i \<noteq> ?n"
    using cached_below [OF b] by fastforce
  have b': "bij_betw (\<lambda>k'. the (((instances reg)(ct \<mapsto> ?n)) k')) (dom ((instances reg)(ct \<mapsto> ?n))) {..<Suc ?n}"
    by (rule bij_betw_cache_insert [OF b None])
  show ?thesis
  proof (cases ct)
    case N: None
    show ?thesis using None N inv b' fresh
      by (auto simp: PartTypeSpec_call_def PartTypeSpec_new_def PartTypeSpec_init_def
              registry_inv_def Let_def)
  next
    case (Some c)
    show ?thesis
    proof (cases "pml_parttypes E c")
      case N: None
      show ?thesis using None Some N inv b' fresh
        by (auto simp: PartTypeSpec_call_def PartTypeSpec_new_def PartTypeSpec_init_def
              registry_inv_def Let_def)
    next
      case (Some row)
      show ?thesis using None \<open>ct = Some c\<close> Some inv b' fresh
        by (auto simp: PartTypeSpec_call_def PartTypeSpec_new_def PartTypeSpec_init_def
              registry_inv_def Let_def ptsdict.truncate_def ptsdict.extend_def PartTypeSpec_attrs.fields_def)
    qed
  qed
qed

lemma registry_reachable_inv: "registry_reachable E reg \<Longrightarrow> registry_inv E reg"
proof (induction rule: registry_reachable.induct)
  case start
  show ?case by (rule registry_inv_init)
next
  case (construct reg ct)
  then show ?case by (simp add: registry_inv_call)
next
  case (hook reg c lc)
  then show ?case by (simp add: registry_inv_def register_def)
next
  case (default_hook reg lc)
  then show ?case by (simp add: registry_inv_def register_def_loadclass_def)
qed



text \<open>
  C8, what the code does: the first construction for a content type that the table lacks
  raises \<^verbatim>\<open>KeyError\<close>, but \<^verbatim>\<open>__new__\<close> has cached the instance by then and
  \<^verbatim>\<open>__init__\<close> has set \<^verbatim>\<open>_loaded\<close> before looking the content type up; the second
  construction finds the instance, skips the check and returns it, without attributes.
\<close>

theorem PartTypeSpec_unknown_second_lookup:
  "fst (PartTypeSpec_call example_env
         (Some ''application/x-unknown'') registry_init) = Inl KeyError
   \<and> fst (PartTypeSpec_call example_env
         (Some ''application/x-unknown'')
         (snd (PartTypeSpec_call example_env
         (Some ''application/x-unknown'') registry_init))) = Inr 0"
  by code_simp

section \<open>The walk of the relationship graph\<close>

lemma loadparts_Cons_Inr:
  assumes "loadparts E fs cti base (r # rels) s = (Inr u, s1)"
  obtains
    (skip) pn where "target_partname E base r = Inr pn" "pn \<in> dom (partname_dict (fst s))"
      "loadparts E fs cti base rels s = (Inr u, s1)"
  | (leaf) pn ct part s' where "target_partname E base r = Inr pn"
      "pn \<notin> dom (partname_dict (fst s))" "cti_getitem cti pn = Inr ct"
      "loadpart E fs pn ct s = (Inr part, s')"
      "relsitem part = None \<or> (\<exists>ri. relsitem part = Some ri \<and> rel_list (relationships ri) = [])"
      "loadparts E fs cti base rels s' = (Inr u, s1)"
  | (node) pn ct part s' ri u' s'' where "target_partname E base r = Inr pn"
      "pn \<notin> dom (partname_dict (fst s))" "cti_getitem cti pn = Inr ct"
      "loadpart E fs pn ct s = (Inr part, s')"
      "relsitem part = Some ri" "rel_list (relationships ri) \<noteq> []"
      "loadparts E fs cti (ri_baseURI ri) (rel_list (relationships ri)) s' = (Inr u', s'')"
      "loadparts E fs cti base rels s'' = (Inr u, s1)"
  using assms
  by (auto split: sum.splits if_splits prod.splits option.splits)


lemma targets_loaded_mono:
  "targets_loaded E pc base rels \<Longrightarrow> partname_dict pc \<subseteq>\<^sub>m partname_dict pc'
     \<Longrightarrow> targets_loaded E pc' base rels"
  unfolding targets_loaded_def by (meson map_le_implies_dom_le subsetD)

lemma part_closed_mono:
  "part_closed E pc part \<Longrightarrow> partname_dict pc \<subseteq>\<^sub>m partname_dict pc'
     \<Longrightarrow> part_closed E pc' part"
  unfolding part_closed_def by (blast intro: targets_loaded_mono)

lemma targets_loaded_Cons:
  "targets_loaded E pc base (r # rels) \<longleftrightarrow>
     (\<forall>pn. target_partname E base r = Inr pn \<longrightarrow> pn \<in> dom (partname_dict pc))
     \<and> targets_loaded E pc base rels"
  by (auto simp: targets_loaded_def)

lemma loadpart_consistent:
  assumes lp: "loadpart E fs pn ct s = (Inr part, s')" and c: "pc_consistent (fst s)"
  shows "pc_consistent (fst s')" and "partname_dict (fst s) \<subseteq>\<^sub>m partname_dict (fst s')"
    and "partname_dict (fst s') pn = Some part"
    and "dom (partname_dict (fst s')) = insert pn (dom (partname_dict (fst s)))"
proof -
  note f = loadpart_Inr [OF lp]
  from f have new: "pn \<notin> dom (partname_dict (fst s))" and name: "partname part = pn"
    and d: "partname_dict (fst s') = (partname_dict (fst s))(pn \<mapsto> part)"
    and l: "part_list (fst s') = part_list (fst s) @ [part]" by auto
  have notin: "pn \<notin> partname ` set (part_list (fst s))"
  proof
    assume "pn \<in> partname ` set (part_list (fst s))"
    then obtain p where "p \<in> set (part_list (fst s))" "partname p = pn" by auto
    with c have "partname_dict (fst s) pn = Some p" by (auto simp: pc_consistent_def)
    with new show False by auto
  qed
  show "pc_consistent (fst s')"
    using c new name notin unfolding pc_consistent_def d l
    by (auto simp: image_iff)
  show "partname_dict (fst s) \<subseteq>\<^sub>m partname_dict (fst s')"
    using new unfolding d by (auto simp: map_le_def)
  show "partname_dict (fst s') pn = Some part" by (simp add: d)
  show "dom (partname_dict (fst s')) = insert pn (dom (partname_dict (fst s)))" by (simp add: d)
qed

lemma loadparts_post_step:
  assumes lp: "loadpart E fs pn ct s = (Inr part, s')" and cons: "pc_consistent (fst s)"
    and tgt: "target_partname E base r = Inr pn"
    and le: "partname_dict (fst s') \<subseteq>\<^sub>m partname_dict pc2"
    and closed: "part_closed E pc2 part"
    and rest: "loadparts_post E pc2 base rels pc1"
    and mid: "\<forall>pn' part'. partname_dict pc2 pn' = Some part' \<longrightarrow> pn' \<notin> dom (partname_dict (fst s'))
        \<longrightarrow> part_closed E pc2 part'"
  shows "loadparts_post E (fst s) base (r # rels) pc1"
proof -
  note l = loadpart_consistent [OF lp cons]
  from rest have r1: "pc_consistent pc1" and r2: "partname_dict pc2 \<subseteq>\<^sub>m partname_dict pc1"
    and r3: "targets_loaded E pc1 base rels"
    and r4: "\<forall>pn part. partname_dict pc1 pn = Some part \<longrightarrow> pn \<notin> dom (partname_dict pc2)
        \<longrightarrow> part_closed E pc1 part"
    by (auto simp: loadparts_post_def)
  have le': "partname_dict (fst s') \<subseteq>\<^sub>m partname_dict pc1"
    using le r2 by (rule map_le_trans)
  have le0: "partname_dict (fst s) \<subseteq>\<^sub>m partname_dict pc1"
    using l(2) le' by (rule map_le_trans)
  have pn1: "partname_dict pc1 pn = Some part"
    using l(3) le' by (metis domI map_le_def)
  have new: "\<forall>pn' part'. partname_dict pc1 pn' = Some part' \<longrightarrow> pn' \<notin> dom (partname_dict (fst s))
            \<longrightarrow> part_closed E pc1 part'"
  proof (intro allI impI)
    fix pn' part' assume a: "partname_dict pc1 pn' = Some part'" "pn' \<notin> dom (partname_dict (fst s))"
    show "part_closed E pc1 part'"
    proof (cases "pn' = pn")
      case True
      then show ?thesis using a pn1 part_closed_mono [OF closed r2] by simp
    next
      case False
      then have n': "pn' \<notin> dom (partname_dict (fst s'))" using a(2) l(4) by simp
      show ?thesis
      proof (cases "pn' \<in> dom (partname_dict pc2)")
        case True
        then have "partname_dict pc2 pn' = Some part'"
          using a(1) r2 by (metis map_le_def)
        then have "part_closed E pc2 part'" using mid n' by blast
        then show ?thesis using r2 by (rule part_closed_mono)
      next
        case False
        then show ?thesis using r4 a(1) by blast
      qed
    qed
  qed
  show ?thesis unfolding loadparts_post_def
    using r1 r3 le0 new pn1 tgt by (auto simp: targets_loaded_Cons)
qed

lemma loadparts_invariant:
  assumes "loadparts E fs cti base rels s = (Inr u, s1)" and "pc_consistent (fst s)"
  shows "loadparts_post E (fst s) base rels (fst s1)"
  using assms
proof (induction E fs cti base rels s arbitrary: u s1 rule: loadparts.induct)
  case (1 E fs cti base s)
  then show ?case by (auto simp: loadparts_post_def targets_loaded_def)
next
  case (2 E fs cti base r rels s)
  note run = "2.prems"(1) and cons = "2.prems"(2)
  from run show ?case
  proof (cases rule: loadparts_Cons_Inr)
    case (skip pn)
    have ih: "loadparts_post E (fst s) base rels (fst s1)"
      using "2.IH"(1) [OF skip(1,2,3) cons] .
    then have "pn \<in> dom (partname_dict (fst s1))"
      using skip(2) unfolding loadparts_post_def by (meson map_le_implies_dom_le subsetD)
    then show ?thesis using ih skip(1) by (auto simp: loadparts_post_def targets_loaded_Cons)
  next
    case (leaf pn ct part s')
    note lp = loadpart_consistent [OF leaf(4) cons]
    have ih: "loadparts_post E (fst s') base rels (fst s1)"
      using leaf(5)
    proof (elim disjE exE conjE)
      assume n: "relsitem part = None"
      show ?thesis using "2.IH"(2) [OF leaf(1,2,3) leaf(4) [symmetric] refl n leaf(6) lp(1)] .
    next
      fix ri assume ri: "relsitem part = Some ri" "rel_list (relationships ri) = []"
      show ?thesis using "2.IH"(3) [OF leaf(1,2,3) leaf(4) [symmetric] refl ri leaf(6) lp(1)] .
    qed
    have leafclosed: "part_closed E (fst s') part"
      using leaf(5) by (auto simp: part_closed_def targets_loaded_def)
    show ?thesis
      by (rule loadparts_post_step [OF leaf(4) cons leaf(1) map_le_refl leafclosed ih]) blast
  next
    case (node pn ct part s' ri u' s'')
    note lp = loadpart_consistent [OF node(4) cons]
    have ih1: "loadparts_post E (fst s') (ri_baseURI ri) (rel_list (relationships ri)) (fst s'')"
      using "2.IH"(4) [OF node(1,2,3) node(4) [symmetric] refl node(5,6,7) lp(1)] .
    then have c'': "pc_consistent (fst s'')" by (simp add: loadparts_post_def)
    have ih2: "loadparts_post E (fst s'') base rels (fst s1)"
      using "2.IH"(5) [OF node(1,2,3) node(4) [symmetric] refl node(5,6) node(7) [symmetric] refl node(8) c''] .
    have nodeclosed: "part_closed E (fst s'') part"
      using ih1 node(5) by (simp add: part_closed_def loadparts_post_def)
    show ?thesis
      using ih1 by (intro loadparts_post_step [OF node(4) cons node(1) _ nodeclosed ih2])
        (auto simp: loadparts_post_def)
  qed
qed






section \<open>Uniqueness on insert\<close>

text \<open>
  C6. \<^verbatim>\<open>loadpart\<close> for a part name that is already in the part collection raises
  \<^verbatim>\<open>DuplicateKeyError\<close> and leaves the collection and the cache as they were; so does the
  second of two loads of one part name. \<^verbatim>\<open>additem\<close> for an element whose \<^verbatim>\<open>Id\<close> is
  already a key of the relationship collection raises \<^verbatim>\<open>DuplicateKeyError\<close> and leaves the
  collection as it was; so does the second of two additions with one \<^verbatim>\<open>Id\<close>.
\<close>

theorem duplicate_insert_rejected:
  "(pn \<in> dom (partname_dict pc) \<longrightarrow>
      loadpart E fs pn ct (pc, reg) = (Inl DuplicateKeyError, pc, reg))
   \<and> (loadpart E fs pn ct s = (Inr part, s') \<longrightarrow>
        loadpart E fs pn ct' s' = (Inl DuplicateKeyError, s'))
   \<and> (xml_get rel_elm ''Id'' \<in> dom (id_dict rc) \<longrightarrow>
        additem rc rel_elm = (Inl DuplicateKeyError, rc))
   \<and> (additem rc ea = (Inr rel, rc') \<and> xml_get eb ''Id'' = xml_get ea ''Id'' \<longrightarrow>
        additem rc' eb = (Inl DuplicateKeyError, rc'))"
proof (intro conjI impI)
  assume "pn \<in> dom (partname_dict pc)"
  then show "loadpart E fs pn ct (pc, reg) = (Inl DuplicateKeyError, pc, reg)"
    by (simp add: loadpart_def)
next
  assume lp: "loadpart E fs pn ct s = (Inr part, s')"
  from loadpart_Inr [OF lp] have "pn \<in> dom (partname_dict (fst s'))" by simp
  then show "loadpart E fs pn ct' s' = (Inl DuplicateKeyError, s')"
    by (cases s') (simp add: loadpart_def)
next
  assume "xml_get rel_elm ''Id'' \<in> dom (id_dict rc)"
  then show "additem rc rel_elm = (Inl DuplicateKeyError, rc)"
    by (simp add: additem_def Relationship_init_def)
next
  assume "additem rc ea = (Inr rel, rc') \<and> xml_get eb ''Id'' = xml_get ea ''Id''"
  then show "additem rc' eb = (Inl DuplicateKeyError, rc')"
    by (auto simp: additem_def Relationship_init_def Let_def split: if_splits)
qed

theorem duplicate_insert_rejected_witness:
  "loadpart example_env example_fs ''/ppt/media/image1.png'' (Some ''image/png'')
     (snd (loadpart example_env example_fs ''/ppt/media/image1.png'' (Some ''image/png'')
        (PartCollection_init, registry_init)))
   = (Inl DuplicateKeyError,
      snd (loadpart example_env example_fs ''/ppt/media/image1.png'' (Some ''image/png'')
        (PartCollection_init, registry_init)))
   \<and> additem (snd (additem RelationshipCollection_init
                     (Relationship_elm ''rId1'' ''slide'' ''slides/slide1.xml'')))
        (Relationship_elm ''rId1'' ''slide'' ''slides/slide2.xml'')
   = (Inl DuplicateKeyError,
      snd (additem RelationshipCollection_init
             (Relationship_elm ''rId1'' ''slide'' ''slides/slide1.xml'')))"
proof -
  let ?first = "loadpart example_env example_fs ''/ppt/media/image1.png'' (Some ''image/png'')
        (PartCollection_init, registry_init)"
  let ?e1 = "Relationship_elm ''rId1'' ''slide'' ''slides/slide1.xml''"
  let ?e2 = "Relationship_elm ''rId1'' ''slide'' ''slides/slide2.xml''"
  let ?add = "additem RelationshipCollection_init ?e1"
  have "case fst ?first of Inl _ \<Rightarrow> False | Inr _ \<Rightarrow> True" by code_simp
  then obtain part where "fst ?first = Inr part" by (auto split: sum.splits)
  then have first: "?first = (Inr part, snd ?first)" by (metis prod.collapse)
  have "case fst ?add of Inl _ \<Rightarrow> False | Inr _ \<Rightarrow> True" by code_simp
  then obtain rel where "fst ?add = Inr rel" by (auto split: sum.splits)
  then have add: "?add = (Inr rel, snd ?add)" by (metis prod.collapse)
  have ids: "xml_get ?e2 ''Id'' = xml_get ?e1 ''Id''" by code_simp
  have key: "xml_get ?e2 ''Id'' \<in> dom (id_dict (snd ?add))" by code_simp
  note parts = duplicate_insert_rejected
    [where pn = "''/ppt/media/image1.png''" and E = example_env and fs = example_fs
       and ct = "Some ''image/png''" and s = "(PartCollection_init, registry_init)"
       and part = part and s' = "snd ?first" and ct' = "Some ''image/png''"
       and pc = "fst (snd ?first)" and reg = "snd (snd ?first)"
       and rel_elm = ?e2 and rc = "snd ?add"]
  note rels = duplicate_insert_rejected
    [where rc = RelationshipCollection_init and ea = ?e1 and rel = rel and rc' = "snd ?add"
       and eb = ?e2]
  from parts rels
  show ?thesis using first add ids key by blast
qed

section \<open>The relationships item of a part\<close>

lemma relsitemURI_attrs:
  assumes "attrs ts = Some a"
  shows "relsitemURI ts pn fs =
     Inr (if has_rels a = ''never'' then None
          else if has_rels a = ''optional''
          then (if fs_contains fs (fst (split_path pn) @ ''/_rels/'' @ snd (split_path pn) @ ''.rels'')
                then Some (fst (split_path pn) @ ''/_rels/'' @ snd (split_path pn) @ ''.rels'')
                else None)
          else Some (fst (split_path pn) @ ''/_rels/'' @ snd (split_path pn) @ ''.rels''))"
  using assms by (simp add: relsitemURI_def Let_def case_prod_beta)

text \<open>
  Once the part type spec is resolved and the body of the part is read, \<^verbatim>\<open>Part.load\<close>
  treats the relationships item at the URI \<open>head/_rels/tail.rels\<close>, \<open>(head, tail)\<close> being
  \<^verbatim>\<open>os.path.split\<close> of the part name, by the \<^verbatim>\<open>has_rels\<close> of the spec. With
  \<^verbatim>\<open>always\<close> and that URI absent from the file system it raises
  \<^verbatim>\<open>CorruptedPackageError\<close>. With \<^verbatim>\<open>never\<close> it returns the part without a relationships
  item, whatever the file system holds. With \<^verbatim>\<open>optional\<close> and the URI absent it returns the
  part without a relationships item and without an error. In the remaining cases the URI is
  present and not excluded by \<^verbatim>\<open>never\<close>: the item is read, its relationships are attached to
  the part, and a failure to read it is the failure of the load. For a part \<open>name\<close> in a
  directory \<open>dir\<close> the URI is \<open>dir/_rels/name.rels\<close>, the item next to the part.
\<close>

lemma Part_load_relsitem:
  assumes ts: "PartTypeSpec_call E ct reg = (Inr ts, reg')"
    and a: "attrs (objects reg' ts) = Some a"
    and body: "load_body E fs (if ext a = ''.xml'' then ''xml'' else ''binary'') pn = Inr (b, el)"
    and uri: "uri = fst (split_path pn) @ ''/_rels/'' @ snd (split_path pn) @ ''.rels''"
  shows "(has_rels a = ''always'' \<and> \<not> fs_contains fs uri \<longrightarrow>
            Part_load E fs pn ct reg = (Inl CorruptedPackageError, reg'))
       \<and> (has_rels a = ''never'' \<longrightarrow>
            Part_load E fs pn ct reg =
              (Inr \<lparr>partname = pn, relsitem = None, blob = b, element = el, typespec = ts\<rparr>, reg'))
       \<and> (has_rels a = ''optional'' \<and> \<not> fs_contains fs uri \<longrightarrow>
            Part_load E fs pn ct reg =
              (Inr \<lparr>partname = pn, relsitem = None, blob = b, element = el, typespec = ts\<rparr>, reg'))
       \<and> (has_rels a \<noteq> ''never'' \<and> fs_contains fs uri \<longrightarrow>
            Part_load E fs pn ct reg =
              (case PartRelationshipsItem_load E pn fs uri of
                 Inl e \<Rightarrow> (Inl e, reg')
               | Inr ri \<Rightarrow>
                   (Inr \<lparr>partname = pn, relsitem = Some ri, blob = b, element = el,
                         typespec = ts\<rparr>, reg')))
       \<and> (\<forall>dir name. pn = dir @ ''/'' @ name \<and> dir \<noteq> [] \<and> last dir \<noteq> CHR ''/''
              \<and> CHR ''/'' \<notin> set name \<longrightarrow> uri = dir @ ''/_rels/'' @ name @ ''.rels'')"
proof -
  have fmt: "format (objects reg' ts) = Inr (if ext a = ''.xml'' then ''xml'' else ''binary'')"
    using a by (simp add: format_def)
  have ne: "uri \<noteq> []" by (simp add: uri)
  note ru = relsitemURI_attrs [OF a, of pn fs, folded uri]
  have pl: "Part_load E fs pn ct reg =
      (case load_relsitem E fs pn
              (if has_rels a = ''never'' then None
               else if has_rels a = ''optional''
               then (if fs_contains fs uri then Some uri else None) else Some uri) of
         Inl e \<Rightarrow> (Inl e, reg')
       | Inr ri_opt \<Rightarrow>
           (Inr \<lparr>partname = pn, relsitem = ri_opt, blob = b, element = el, typespec = ts\<rparr>, reg'))"
    by (simp add: Part_load_def Part_load_with_def ts fmt body ru split: sum.splits)
  have c1: "has_rels a = ''always'' \<and> \<not> fs_contains fs uri \<longrightarrow>
            Part_load E fs pn ct reg = (Inl CorruptedPackageError, reg')"
    unfolding pl using ne by (simp add: load_relsitem_def)
  have c2: "has_rels a = ''never'' \<longrightarrow>
            Part_load E fs pn ct reg =
              (Inr \<lparr>partname = pn, relsitem = None, blob = b, element = el, typespec = ts\<rparr>, reg')"
    unfolding pl by (simp add: load_relsitem_def)
  have c3: "has_rels a = ''optional'' \<and> \<not> fs_contains fs uri \<longrightarrow>
            Part_load E fs pn ct reg =
              (Inr \<lparr>partname = pn, relsitem = None, blob = b, element = el, typespec = ts\<rparr>, reg')"
    unfolding pl by (simp add: load_relsitem_def)
  have c4: "has_rels a \<noteq> ''never'' \<and> fs_contains fs uri \<longrightarrow>
            Part_load E fs pn ct reg =
              (case PartRelationshipsItem_load E pn fs uri of
                 Inl e \<Rightarrow> (Inl e, reg')
               | Inr ri \<Rightarrow>
                   (Inr \<lparr>partname = pn, relsitem = Some ri, blob = b, element = el,
                         typespec = ts\<rparr>, reg'))"
    unfolding pl using ne by (simp add: load_relsitem_def split: sum.splits)
  have c5: "\<forall>dir name. pn = dir @ ''/'' @ name \<and> dir \<noteq> [] \<and> last dir \<noteq> CHR ''/''
              \<and> CHR ''/'' \<notin> set name \<longrightarrow> uri = dir @ ''/_rels/'' @ name @ ''.rels''"
    using split_path_dir_name by (auto simp: uri)
  show ?thesis using c1 c2 c3 c4 c5 by blast
qed

text \<open>
  C5. The relationships item that goes with a part is the one in the \<^verbatim>\<open>_rels\<close> directory
  next to it, named after the part with \<^verbatim>\<open>.rels\<close> appended, and \<^verbatim>\<open>Part.load\<close> is to
  handle it by the \<^verbatim>\<open>has_rels\<close> of the part type. For a part directly under the package
  root this fails: \<^verbatim>\<open>os.path.split\<close> gives the head \<^verbatim>\<open>/\<close>, so the URI the code computes
  for \<^verbatim>\<open>/slide1.xml\<close> is \<^verbatim>\<open>//_rels/slide1.xml.rels\<close>, which is not the URI
  \<^verbatim>\<open>/_rels/slide1.xml.rels\<close> under which the archive lists the item. With the item in the
  archive, loading the part with \<^verbatim>\<open>always\<close> raises \<^verbatim>\<open>CorruptedPackageError\<close>, and loading
  it with \<^verbatim>\<open>optional\<close> returns the part without relationships: the item that is present is
  not read. The same part in the directory \<^verbatim>\<open>/d\<close> is loaded with its relationships item in
  both cases.
\<close>

theorem relsitem_root_level:
  "fs_contains example_fs_flat ''/_rels/slide1.xml.rels''
   \<and> fst (split_path ''/slide1.xml'') @ ''/_rels/'' @ snd (split_path ''/slide1.xml'') @ ''.rels''
       = ''//_rels/slide1.xml.rels''
   \<and> map_sum id (map_option ri_itemURI \<circ> relsitem)
        (fst (Part_load example_env example_fs_flat ''/slide1.xml'' (Some slide_ct) registry_init))
       = Inl CorruptedPackageError
   \<and> map_sum id (map_option ri_itemURI \<circ> relsitem)
        (fst (Part_load example_env example_fs_flat ''/slide1.xml'' (Some theme_ct) registry_init))
       = Inr None
   \<and> map_sum id (map_option ri_itemURI \<circ> relsitem)
        (fst (Part_load example_env example_fs_flat ''/d/slide1.xml'' (Some slide_ct) registry_init))
       = Inr (Some ''/d/_rels/slide1.xml.rels'')
   \<and> map_sum id (map_option ri_itemURI \<circ> relsitem)
        (fst (Part_load example_env example_fs_flat ''/d/slide1.xml'' (Some theme_ct) registry_init))
       = Inr (Some ''/d/_rels/slide1.xml.rels'')"
  by code_simp

section \<open>Resolving relationship targets\<close>

lemma split_slash_no_slash: "c \<in> set (split_slash p) \<Longrightarrow> CHR ''/'' \<notin> set c"
proof (induction p arbitrary: c)
  case Nil
  then show ?case by simp
next
  case (Cons x xs)
  show ?case
  proof (cases "x = CHR ''/''")
    case True
    then show ?thesis using Cons by auto
  next
    case False
    then show ?thesis using Cons by (cases "split_slash xs") auto
  qed
qed

lemma normpath_comps_absolute:
  assumes "\<forall>c \<in> set acc. c \<noteq> [] \<and> c \<noteq> ''.'' \<and> c \<noteq> ''..'' \<and> CHR ''/'' \<notin> set c"
    and "\<forall>c \<in> set xs. CHR ''/'' \<notin> set c"
  shows "\<forall>c \<in> set (normpath_comps True acc xs).
           c \<noteq> [] \<and> c \<noteq> ''.'' \<and> c \<noteq> ''..'' \<and> CHR ''/'' \<notin> set c"
  using assms
proof (induction xs arbitrary: acc)
  case Nil
  then show ?case by simp
next
  case (Cons seg xs)
  have tl: "\<forall>c \<in> set xs. CHR ''/'' \<notin> set c" using Cons.prems(2) by simp
  have sg: "CHR ''/'' \<notin> set seg" using Cons.prems(2) by simp
  have nolast: "acc \<noteq> [] \<Longrightarrow> last acc \<noteq> ''..''"
    using Cons.prems(1) last_in_set by blast
  have bl: "\<forall>c \<in> set (butlast acc). c \<noteq> [] \<and> c \<noteq> ''.'' \<and> c \<noteq> ''..'' \<and> CHR ''/'' \<notin> set c"
    using Cons.prems(1) by (meson in_set_butlastD)
  show ?case
  proof (cases "seg = [] \<or> seg = ''.''")
    case True
    then show ?thesis using Cons.IH [OF Cons.prems(1) tl] by auto
  next
    case False
    show ?thesis
    proof (cases "seg = ''..''")
      case dd: True
      show ?thesis
      proof (cases "acc = []")
        case True
        then show ?thesis using dd Cons.IH [OF Cons.prems(1) tl] by simp
      next
        case ne: False
        then show ?thesis using dd nolast [OF ne] Cons.IH [OF bl tl] by simp
      qed
    next
      case nd: False
      have "\<forall>c \<in> set (acc @ [seg]). c \<noteq> [] \<and> c \<noteq> ''.'' \<and> c \<noteq> ''..'' \<and> CHR ''/'' \<notin> set c"
        using Cons.prems(1) False nd sg by auto
      from Cons.IH [OF this tl] show ?thesis using False nd by simp
    qed
  qed
qed

lemma normpath_absolute:
  assumes "take 1 p = ''/''"
  shows "canonical_partname (normpath p)"
proof -
  have ne: "p \<noteq> []" using assms by auto
  let ?n = "initial_slashes p"
  let ?comps = "normpath_comps True [] (split_slash p)"
  have n: "?n = 1 \<or> ?n = 2" using assms by (simp add: initial_slashes_def)
  have good: "\<forall>c \<in> set ?comps. c \<noteq> [] \<and> c \<noteq> ''.'' \<and> c \<noteq> ''..'' \<and> CHR ''/'' \<notin> set c"
    by (rule normpath_comps_absolute) (auto dest: split_slash_no_slash)
  have nz: "(?n \<noteq> 0) = True" using n by auto
  have "normpath p = replicate ?n CHR ''/'' @ join_slash ?comps"
    using ne n unfolding normpath_def Let_def nz by auto
  then show ?thesis unfolding canonical_partname_def using n good by blast
qed

lemma join_path_relative:
  assumes "take 1 base = ''/''" "take 1 t \<noteq> ''/''"
  shows "join_path base t = base @ (if last base = CHR ''/'' then [] else ''/'') @ t"
    and "take 1 (join_path base t) = ''/''"
proof -
  have b: "base \<noteq> []" using assms(1) by auto
  have t: "\<not> (t \<noteq> [] \<and> hd t = CHR ''/'')" using assms(2) by (cases t) auto
  show j: "join_path base t = base @ (if last base = CHR ''/'' then [] else ''/'') @ t"
    using b t by (simp add: join_path_def)
  show "take 1 (join_path base t) = ''/''"
    unfolding j using assms(1) b by (cases base) auto
qed

text \<open>
  C9. The base URI of the package relationships item is \<^verbatim>\<open>/\<close>; that of the relationships
  item of a part is the directory of the part name (\<^verbatim>\<open>os.path.split\<close>). With an absolute
  base URI, a relationship with a relative target resolves to the normalized join of the two:
  the base, a slash unless the base ends in one, the target; and the result is an absolute
  path without empty, \<open>.\<close> or \<open>..\<close> components. The part at
  \<^verbatim>\<open>/ppt/slides/slide1.xml\<close> has the base \<^verbatim>\<open>/ppt/slides\<close>, against which the target
  \<^verbatim>\<open>../slideLayouts/slideLayout1.xml\<close> resolves to \<^verbatim>\<open>/ppt/slideLayouts/slideLayout1.xml\<close>.
\<close>

theorem target_partname_resolution:
  "(PackageRelationshipsItem_load E fs = Inr ri \<longrightarrow> ri_baseURI ri = ''/'')
   \<and> (PartRelationshipsItem_load E pn fs uri = Inr ri' \<longrightarrow> ri_baseURI ri' = fst (split_path pn))
   \<and> (target r = Some t \<and> take 1 base = ''/'' \<and> take 1 t \<noteq> ''/'' \<longrightarrow>
        target_partname E base r = Inr (normpath (join_path base t))
        \<and> join_path base t = base @ (if last base = CHR ''/'' then [] else ''/'') @ t
        \<and> canonical_partname (normpath (join_path base t)))
   \<and> fst (split_path ''/ppt/slides/slide1.xml'') = ''/ppt/slides''
   \<and> (target r' = Some ''../slideLayouts/slideLayout1.xml'' \<longrightarrow>
        target_partname E ''/ppt/slides'' r' = Inr ''/ppt/slideLayouts/slideLayout1.xml'')"
proof -
  have c1: "PackageRelationshipsItem_load E fs = Inr ri \<longrightarrow> ri_baseURI ri = ''/''"
    by (auto simp: PackageRelationshipsItem_load_def split: sum.splits)
  have c2: "PartRelationshipsItem_load E pn fs uri = Inr ri' \<longrightarrow> ri_baseURI ri' = fst (split_path pn)"
    by (auto simp: PartRelationshipsItem_load_def split: sum.splits)
  have c3: "target r = Some t \<and> take 1 base = ''/'' \<and> take 1 t \<noteq> ''/'' \<longrightarrow>
        target_partname E base r = Inr (normpath (join_path base t))
        \<and> join_path base t = base @ (if last base = CHR ''/'' then [] else ''/'') @ t
        \<and> canonical_partname (normpath (join_path base t))"
  proof (intro impI, elim conjE)
    assume a: "target r = Some t" "take 1 base = ''/''" "take 1 t \<noteq> ''/''"
    note j = join_path_relative [OF a(2,3)]
    have "target_partname E base r = Inr (normpath (join_path base t))"
      using a(1) j(2) by (simp add: target_partname_def abspath_def)
    then show "target_partname E base r = Inr (normpath (join_path base t))
        \<and> join_path base t = base @ (if last base = CHR ''/'' then [] else ''/'') @ t
        \<and> canonical_partname (normpath (join_path base t))"
      using j(1) normpath_absolute [OF j(2)] by blast
  qed
  have c4: "fst (split_path ''/ppt/slides/slide1.xml'') = ''/ppt/slides''" by code_simp
  have ex: "abspath cwd (join_path ''/ppt/slides'' ''../slideLayouts/slideLayout1.xml'')
      = ''/ppt/slideLayouts/slideLayout1.xml''" for cwd
    by code_simp
  have c5: "target r' = Some ''../slideLayouts/slideLayout1.xml'' \<longrightarrow>
        target_partname E ''/ppt/slides'' r' = Inr ''/ppt/slideLayouts/slideLayout1.xml''"
    by (simp add: target_partname_def ex)
  show ?thesis using c1 c2 c3 c4 c5 by blast
qed

theorem target_partname_resolution_witness:
  "target_partname example_env ''/''
      \<lparr>rId = Some ''rId1'', reltype = Some ''slide'', target = Some ''ppt/./slides/../slides/slide1.xml''\<rparr>
     = Inr ''/ppt/slides/slide1.xml''
   \<and> canonical_partname ''/ppt/slides/slide1.xml''
   \<and> ri_baseURI (projr (PartRelationshipsItem_load example_env ''/ppt/slides/slide1.xml'' example_fs
         ''/ppt/slides/_rels/slide1.xml.rels'')) = ''/ppt/slides''
   \<and> ri_baseURI (projr (PackageRelationshipsItem_load example_env example_fs)) = ''/''"
proof -
  let ?r = "\<lparr>rId = Some ''rId1'', reltype = Some ''slide'', target = Some ''ppt/./slides/../slides/slide1.xml''\<rparr>"
  let ?pl = "PartRelationshipsItem_load example_env ''/ppt/slides/slide1.xml'' example_fs
         ''/ppt/slides/_rels/slide1.xml.rels''"
  let ?kl = "PackageRelationshipsItem_load example_env example_fs"
  have "isl ?pl = False" by code_simp
  then have pl: "?pl = Inr (projr ?pl)" by (cases ?pl) auto
  have "isl ?kl = False" by code_simp
  then have kl: "?kl = Inr (projr ?kl)" by (cases ?kl) auto
  have n: "normpath (join_path ''/'' ''ppt/./slides/../slides/slide1.xml'') = ''/ppt/slides/slide1.xml''"
    by code_simp
  have d: "fst (split_path ''/ppt/slides/slide1.xml'') = ''/ppt/slides''" by code_simp
  have h: "target ?r = Some ''ppt/./slides/../slides/slide1.xml'' \<and> take 1 ''/'' = ''/''
      \<and> take 1 ''ppt/./slides/../slides/slide1.xml'' \<noteq> ''/''" by simp
  from target_partname_resolution
    [where E = example_env and fs = example_fs and ri = "projr ?kl"
       and pn = "''/ppt/slides/slide1.xml''" and uri = "''/ppt/slides/_rels/slide1.xml.rels''"
       and ri' = "projr ?pl" and r = ?r and t = "''ppt/./slides/../slides/slide1.xml''"
       and base = "''/''"]
  show ?thesis using pl kl h unfolding n d by metis
qed

section \<open>Saving over an existing file\<close>

lemma write_blob_Inr:
  assumes "write_blob z bytes uri = Inr z'"
  obtains p ms where "z = ZipFileSystem p ms" "z' = ZipFileSystem p (ms @ [(drop 1 uri, bytes)])"
    "\<not> fs_contains z uri"
  using assms by (cases z) (auto split: if_splits)


lemma appended_mono: "appended z z' N \<Longrightarrow> N \<subseteq> M \<Longrightarrow> appended z z' M"
  unfolding appended_def by blast














section \<open>Opening what was saved\<close>

lemma loadparts_run_complete:
  "loadparts E fs cti base rels s = (Inr u, s1) \<Longrightarrow> loadparts_run E fs cti base rels s s1"
proof (induction E fs cti base rels s arbitrary: u s1 rule: loadparts.induct)
  case (1 E fs cti base s)
  then show ?case by (auto intro: loadparts_run.none)
next
  case (2 E fs cti base r rels s)
  from "2.prems" show ?case
  proof (cases rule: loadparts_Cons_Inr)
    case (skip pn)
    show ?thesis
      by (rule loadparts_run.skip [OF skip(1,2) "2.IH"(1) [OF skip(1,2,3)]])
  next
    case (leaf pn ct part s')
    have "loadparts_run E fs cti base rels s' s1"
      using leaf(5)
    proof (elim disjE exE conjE)
      assume n: "relsitem part = None"
      show ?thesis using "2.IH"(2) [OF leaf(1,2,3) leaf(4) [symmetric] refl n leaf(6)] .
    next
      fix ri assume ri: "relsitem part = Some ri" "rel_list (relationships ri) = []"
      show ?thesis using "2.IH"(3) [OF leaf(1,2,3) leaf(4) [symmetric] refl ri leaf(6)] .
    qed
    then show ?thesis by (rule loadparts_run.leaf [OF leaf(1,2,3,4,5)])
  next
    case (node pn ct part s' ri u' s'')
    have a: "loadparts_run E fs cti (ri_baseURI ri) (rel_list (relationships ri)) s' s''"
      using "2.IH"(4) [OF node(1,2,3) node(4) [symmetric] refl node(5,6,7)] .
    have b: "loadparts_run E fs cti base rels s'' s1"
      using "2.IH"(5) [OF node(1,2,3) node(4) [symmetric] refl node(5,6) node(7) [symmetric] refl node(8)] .
    show ?thesis by (rule loadparts_run.node [OF node(1,2,3,4,5,6) a b])
  qed
qed

lemma loadparts_run_sound:
  "loadparts_run E fs cti base rels s s1 \<Longrightarrow> loadparts E fs cti base rels s = (Inr (), s1)"
proof (induction rule: loadparts_run.induct)
  case (none base s)
  show ?case by simp
next
  case (skip base r pn s rels s1)
  then show ?case by simp
next
  case (leaf base r pn s ct part s' rels s1)
  then show ?case by (auto split: option.splits)
next
  case (node base r pn s ct part s' ri s'' rels s1)
  then show ?case by simp
qed

lemma PartTypeSpec_call_hit:
  assumes "instances reg ct = Some i" "loaded (objects reg i)"
  shows "PartTypeSpec_call E ct reg = (Inr i, reg)"
  using assms by (simp add: PartTypeSpec_call_def PartTypeSpec_new_def PartTypeSpec_init_def)

lemma PartTypeSpec_call_miss:
  assumes "instances reg ct = None"
  shows "PartTypeSpec_call E ct reg =
     (case (case ct of None \<Rightarrow> None | Some c \<Rightarrow> map_option (Pair c) (pml_parttypes E c)) of
        None \<Rightarrow>
          (Inl KeyError,
           reg\<lparr>instances := (instances reg)(ct \<mapsto> ninstances reg),
                objects := (objects reg)(ninstances reg := \<lparr>loaded = True, attrs = None\<rparr>),
                ninstances := Suc (ninstances reg)\<rparr>)
      | Some (c, row) \<Rightarrow>
          (Inr (ninstances reg),
           reg\<lparr>instances := (instances reg)(ct \<mapsto> ninstances reg),
                objects := (objects reg)(ninstances reg :=
                  \<lparr>loaded = True,
                   attrs = Some (ptsdict.extend row
                     (PartTypeSpec_attrs.fields c
                        (case loadclassmap reg (Some c) of
                           Some lc \<Rightarrow> Some lc
                         | None \<Rightarrow> defloadclass reg)))\<rparr>),
                ninstances := Suc (ninstances reg)\<rparr>))"
  using assms
  by (simp add: PartTypeSpec_call_def PartTypeSpec_new_def PartTypeSpec_init_def Let_def
        split: option.splits)


lemma reg_le_refl: "reg_le r r"
  by (simp add: reg_le_def)

lemma reg_le_trans:
  assumes "reg_le r r'" "reg_le r' r''"
  shows "reg_le r r''"
proof -
  have m: "instances r \<subseteq>\<^sub>m instances r''"
    using assms by (auto simp: reg_le_def intro: map_le_trans)
  have "\<forall>k inst. instances r k = Some inst \<and> loaded (objects r inst) \<longrightarrow>
         objects r'' inst = objects r inst"
  proof (intro allI impI, elim conjE)
    fix k inst assume a: "instances r k = Some inst" "loaded (objects r inst)"
    have o1: "objects r' inst = objects r inst" using assms(1) a by (auto simp: reg_le_def)
    have k': "instances r' k = Some inst"
      using assms(1) a(1) by (metis domI map_le_def reg_le_def)
    have "loaded (objects r' inst)" using o1 a(2) by simp
    then have "objects r'' inst = objects r' inst" using assms(2) k' by (auto simp: reg_le_def)
    then show "objects r'' inst = objects r inst" using o1 by simp
  qed
  then show ?thesis using m by (simp add: reg_le_def)
qed

lemma registry_inv_below:
  assumes "registry_inv E reg" "instances reg k = Some inst"
  shows "inst < ninstances reg"
  using assms cached_below by (auto simp: registry_inv_def)

lemma registry_typed_init: "registry_typed registry_init"
  by (simp add: registry_typed_def registry_init_def)

lemma registry_typed_call:
  assumes inv: "registry_inv E reg" and ty: "registry_typed reg"
  shows "registry_typed (snd (PartTypeSpec_call E ct reg))"
proof (cases "instances reg ct")
  case (Some i)
  then have "loaded (objects reg i)" using ty by (simp add: registry_typed_def)
  from PartTypeSpec_call_hit [OF Some this] show ?thesis using ty by simp
next
  case None
  have fresh: "\<And>k i. instances reg k = Some i \<Longrightarrow> i \<noteq> ninstances reg"
    using registry_inv_below [OF inv] by fastforce
  show ?thesis
  proof (cases "case ct of None \<Rightarrow> None | Some c \<Rightarrow> map_option (Pair c) (pml_parttypes E c)")
    case N: None
    show ?thesis
      unfolding PartTypeSpec_call_miss [OF None] N registry_typed_def
      using ty fresh by (auto simp: registry_typed_def)
  next
    case (Some cr)
    obtain c row where cr: "cr = (c, row)" by (cases cr)
    have ct: "ct = Some c" using Some cr by (auto split: option.splits)
    show ?thesis
      unfolding PartTypeSpec_call_miss [OF None] Some cr registry_typed_def
      using ty fresh ct
      by (auto simp: registry_typed_def ptsdict.extend_def PartTypeSpec_attrs.fields_def)
  qed
qed

lemma registry_reachable_typed: "registry_reachable E reg \<Longrightarrow> registry_typed reg"
proof (induction rule: registry_reachable.induct)
  case start
  show ?case by (rule registry_typed_init)
next
  case (construct reg ct)
  then show ?case by (simp add: registry_typed_call registry_reachable_inv)
next
  case (hook reg c lc)
  then show ?case by (simp add: registry_typed_def register_def)
next
  case (default_hook reg lc)
  then show ?case by (simp add: registry_typed_def register_def_loadclass_def)
qed

lemma PartTypeSpec_call_le:
  assumes reach: "registry_reachable E reg"
  shows "reg_le reg (snd (PartTypeSpec_call E ct reg))"
proof (cases "instances reg ct")
  case (Some i)
  then have "loaded (objects reg i)"
    using registry_reachable_typed [OF reach] by (simp add: registry_typed_def)
  from PartTypeSpec_call_hit [OF Some this] show ?thesis by (simp add: reg_le_refl)
next
  case None
  have fresh: "\<And>k i. instances reg k = Some i \<Longrightarrow> i \<noteq> ninstances reg"
    using registry_inv_below [OF registry_reachable_inv [OF reach]] by fastforce
  have m: "instances reg \<subseteq>\<^sub>m (instances reg)(ct \<mapsto> ninstances reg)"
    using None by (auto simp: map_le_def)
  show ?thesis
    unfolding PartTypeSpec_call_miss [OF None] reg_le_def
    using m fresh by (auto split: option.splits)
qed

lemma PartTypeSpec_call_cached:
  assumes "PartTypeSpec_call E ct reg = (Inr ts, reg')"
  shows "instances reg' ct = Some ts \<and> loaded (objects reg' ts)"
proof (cases "instances reg ct")
  case None
  show ?thesis using assms unfolding PartTypeSpec_call_miss [OF None]
    by (auto split: option.splits)
next
  case (Some i)
  show ?thesis
  proof (cases "loaded (objects reg i)")
    case True
    from PartTypeSpec_call_hit [OF Some True] assms show ?thesis using Some True by simp
  next
    case False
    then show ?thesis using assms Some
      by (auto simp: PartTypeSpec_call_def PartTypeSpec_new_def PartTypeSpec_init_def Let_def
            split: option.splits)
  qed
qed

lemma PartTypeSpec_call_stable:
  assumes call: "PartTypeSpec_call E ct reg = (Inr ts, reg')" and le: "reg_le reg' regF"
  shows "PartTypeSpec_call E ct regF = (Inr ts, regF)" and "objects regF ts = objects reg' ts"
proof -
  note c = PartTypeSpec_call_cached [OF call]
  have k: "instances regF ct = Some ts" using c le by (metis domI map_le_def reg_le_def)
  show o: "objects regF ts = objects reg' ts" using c le by (auto simp: reg_le_def)
  have "loaded (objects regF ts)" using o c by simp
  from PartTypeSpec_call_hit [OF k this] show "PartTypeSpec_call E ct regF = (Inr ts, regF)" .
qed

lemma Part_load_stable:
  assumes pl: "Part_load E fs pn ct reg = (Inr part, reg')" and le: "reg_le reg' regF"
  shows "Part_load E fs pn ct regF = (Inr part, regF)"
proof -
  obtain r reg1 where call: "PartTypeSpec_call E ct reg = (r, reg1)"
    by (cases "PartTypeSpec_call E ct reg")
  from pl call obtain ts where r: "r = Inr ts" and reg1: "reg1 = reg'"
    and w: "Part_load_with E fs pn ts (objects reg' ts) = Inr part"
    by (cases r) (auto simp: Part_load_def)
  note st = PartTypeSpec_call_stable [OF call [unfolded r reg1] le]
  show ?thesis by (simp add: Part_load_def st w)
qed

lemma loadpart_registry:
  assumes "loadpart E fs pn ct s = (Inr part, s')"
  shows "Part_load E fs pn ct (snd s) = (Inr part, snd s')"
    and "snd s' = snd (PartTypeSpec_call E ct (snd s))"
proof -
  show pl: "Part_load E fs pn ct (snd s) = (Inr part, snd s')"
    using assms by (cases s) (auto simp: loadpart_def split: if_splits prod.splits sum.splits)
  have "snd (Part_load E fs pn ct (snd s)) = snd (PartTypeSpec_call E ct (snd s))"
    by (auto simp: Part_load_def split: prod.splits sum.splits)
  then show "snd s' = snd (PartTypeSpec_call E ct (snd s))" using pl by simp
qed

lemma loadpart_reachable:
  assumes "loadpart E fs pn ct s = (Inr part, s')" "registry_reachable E (snd s)"
  shows "registry_reachable E (snd s')" and "reg_le (snd s) (snd s')"
  using assms loadpart_registry(2) [OF assms(1)]
  by (auto intro: registry_reachable.construct PartTypeSpec_call_le)

lemma loadparts_run_registry:
  assumes "loadparts_run E fs cti base rels s s1" "registry_reachable E (snd s)"
  shows "registry_reachable E (snd s1) \<and> reg_le (snd s) (snd s1)"
  using assms
proof (induction rule: loadparts_run.induct)
  case (none base s)
  then show ?case by (simp add: reg_le_refl)
next
  case (skip base r pn s rels s1)
  then show ?case by simp
next
  case (leaf base r pn s ct part s' rels s1)
  note l = loadpart_reachable [OF leaf(4) leaf.prems]
  from leaf.IH [OF l(1)] l(2) show ?case by (auto intro: reg_le_trans)
next
  case (node base r pn s ct part s' ri s'' rels s1)
  note l = loadpart_reachable [OF node(4) node.prems]
  from node.IH(1) [OF l(1)] have a: "registry_reachable E (snd s'')" "reg_le (snd s') (snd s'')"
    by auto
  from node.IH(2) [OF a(1)] a(2) l(2) show ?case by (auto intro: reg_le_trans)
qed

lemma loadparts_run_post:
  assumes "loadparts_run E fs cti base rels s s1" "pc_consistent (fst s)"
  shows "loadparts_post E (fst s) base rels (fst s1)"
  using loadparts_invariant [OF loadparts_run_sound [OF assms(1)] assms(2)] .

lemma loadparts_run_origin:
  assumes "loadparts_run E fs cti base rels s s1" "pc_consistent (fst s)"
    "registry_reachable E (snd s)"
    "partname_dict (fst s1) pn0 = Some part0" "pn0 \<notin> dom (partname_dict (fst s))"
  shows "\<exists>ct reg reg'. cti_getitem cti pn0 = Inr ct \<and> partname part0 = pn0
           \<and> Part_load E fs pn0 ct reg = (Inr part0, reg') \<and> reg_le reg' (snd s1)"
  using assms
proof (induction rule: loadparts_run.induct)
  case (none base s)
  then show ?case by auto
next
  case (skip base r pn s rels s1)
  then show ?case by simp
next
  case (leaf base r pn s ct part s' rels s1)
  note c = loadpart_consistent [OF leaf(4) leaf.prems(1)]
  note l = loadpart_reachable [OF leaf(4) leaf.prems(2)]
  note g = loadpart_registry [OF leaf(4)]
  note post = loadparts_run_post [OF leaf(6) c(1)]
  note rr = loadparts_run_registry [OF leaf(6) l(1)]
  show ?case
  proof (cases "pn0 = pn")
    case True
    have "partname_dict (fst s1) pn = Some part"
      using c(3) post by (metis domI map_le_def loadparts_post_def)
    then have "part0 = part" using leaf.prems(3) True by simp
    then show ?thesis using True leaf(3) g(1) rr loadpart_Inr [OF leaf(4)] by blast
  next
    case False
    then have "pn0 \<notin> dom (partname_dict (fst s'))" using leaf.prems(4) c(4) by simp
    from leaf.IH [OF c(1) l(1) leaf.prems(3) this] show ?thesis .
  qed
next
  case (node base r pn s ct part s' ri s'' rels s1)
  note c = loadpart_consistent [OF node(4) node.prems(1)]
  note l = loadpart_reachable [OF node(4) node.prems(2)]
  note g = loadpart_registry [OF node(4)]
  note post1 = loadparts_run_post [OF node(7) c(1)]
  note rr1 = loadparts_run_registry [OF node(7) l(1)]
  have c'': "pc_consistent (fst s'')" using post1 by (simp add: loadparts_post_def)
  note post2 = loadparts_run_post [OF node(8) c'']
  note rr2 = loadparts_run_registry [OF node(8) conjunct1 [OF rr1]]
  have le1: "partname_dict (fst s') \<subseteq>\<^sub>m partname_dict (fst s'')"
    using post1 by (simp add: loadparts_post_def)
  have le2: "partname_dict (fst s'') \<subseteq>\<^sub>m partname_dict (fst s1)"
    using post2 by (simp add: loadparts_post_def)
  show ?case
  proof (cases "pn0 = pn")
    case True
    have "partname_dict (fst s1) pn = Some part"
      using c(3) le1 le2 by (metis domI map_le_def)
    then have "part0 = part" using node.prems(3) True by simp
    moreover have "reg_le (snd s') (snd s1)" using rr1 rr2 by (blast intro: reg_le_trans)
    ultimately show ?thesis using True node(3) g(1) loadpart_Inr [OF node(4)] by blast
  next
    case False
    then have n': "pn0 \<notin> dom (partname_dict (fst s'))" using node.prems(4) c(4) by simp
    show ?thesis
    proof (cases "pn0 \<in> dom (partname_dict (fst s''))")
      case True
      then have "partname_dict (fst s'') pn0 = Some part0"
        using node.prems(3) le2 by (metis map_le_def)
      from node.IH(1) [OF c(1) l(1) this n'] obtain ct0 reg reg' where
        o: "cti_getitem cti pn0 = Inr ct0" "partname part0 = pn0"
          "Part_load E fs pn0 ct0 reg = (Inr part0, reg')" "reg_le reg' (snd s'')" by blast
      have "reg_le reg' (snd s1)" using o(4) rr2 by (blast intro: reg_le_trans)
      with o show ?thesis by blast
    next
      case False
      from node.IH(2) [OF c'' conjunct1 [OF rr1] node.prems(3) False] show ?thesis .
    qed
  qed
qed

lemma loadpart_Inr_state:
  assumes "loadpart E fs pn ct s = (Inr part, s')"
  shows "fst s' = (fst s)\<lparr>partname_dict := (partname_dict (fst s))(pn \<mapsto> part),
                          part_list := part_list (fst s) @ [part]\<rparr>"
  using assms by (cases s) (auto simp: loadpart_def split: if_splits prod.splits sum.splits)

lemma loadpart_from_Part_load:
  assumes "Part_load E fs pn ct reg = (Inr part, reg')" "pn \<notin> dom (partname_dict pc)"
  shows "loadpart E fs pn ct (pc, reg)
       = (Inr part, pc\<lparr>partname_dict := (partname_dict pc)(pn \<mapsto> part),
                         part_list := part_list pc @ [part]\<rparr>, reg')"
  using assms by (simp add: loadpart_def)

lemma loadparts_run_simulation:
  assumes "loadparts_run E fs cti base rels s s1" "pc_consistent (fst s)"
    and "\<forall>pn part. partname_dict (fst s1) pn = Some part \<and> pn \<notin> dom (partname_dict (fst s)) \<longrightarrow>
           (\<exists>ct. cti_getitem cti pn = Inr ct \<and> cti_getitem cti2 pn = Inr ct
                 \<and> Part_load E fs2 pn ct regF = (Inr part, regF))"
  shows "loadparts_run E fs2 cti2 base rels (fst s, regF) (fst s1, regF)"
  using assms
proof (induction rule: loadparts_run.induct)
  case (none base s)
  show ?case by (rule loadparts_run.none)
next
  case (skip base r pn s rels s1)
  have "loadparts_run E fs2 cti2 base rels (fst s, regF) (fst s1, regF)"
    using skip.IH [OF skip.prems] .
  then show ?case using skip(1,2) by (intro loadparts_run.skip [where pn = pn]) auto
next
  case (leaf base r pn s ct part s' rels s1)
  note c = loadpart_consistent [OF leaf(4) leaf.prems(1)]
  note post = loadparts_run_post [OF leaf(6) c(1)]
  have p1: "partname_dict (fst s1) pn = Some part"
    using c(3) post by (metis domI map_le_def loadparts_post_def)
  have "\<exists>ct'. cti_getitem cti pn = Inr ct' \<and> cti_getitem cti2 pn = Inr ct'
            \<and> Part_load E fs2 pn ct' regF = (Inr part, regF)"
    using leaf.prems(2) p1 leaf(2) by blast
  then have a: "cti_getitem cti2 pn = Inr ct"
    "Part_load E fs2 pn ct regF = (Inr part, regF)" using leaf(3) by auto
  have lp2: "loadpart E fs2 pn ct (fst s, regF) = (Inr part, (fst s', regF))"
    using loadpart_from_Part_load [OF a(2) leaf(2)] loadpart_Inr_state [OF leaf(4)] by simp
  have ag: "\<forall>pn' part'. partname_dict (fst s1) pn' = Some part' \<and> pn' \<notin> dom (partname_dict (fst s')) \<longrightarrow>
           (\<exists>ct. cti_getitem cti pn' = Inr ct \<and> cti_getitem cti2 pn' = Inr ct
                 \<and> Part_load E fs2 pn' ct regF = (Inr part', regF))"
    using leaf.prems(2) c(4) by auto
  have rest: "loadparts_run E fs2 cti2 base rels (fst s', regF) (fst s1, regF)"
    using leaf.IH [OF c(1) ag] .
  show ?case
    using leaf(1,2,5) a(1) lp2 rest
    by (intro loadparts_run.leaf [where pn = pn and ct = ct and part = part and s' = "(fst s', regF)"])
       auto
next
  case (node base r pn s ct part s' ri s'' rels s1)
  note c = loadpart_consistent [OF node(4) node.prems(1)]
  note post1 = loadparts_run_post [OF node(7) c(1)]
  have c'': "pc_consistent (fst s'')" using post1 by (simp add: loadparts_post_def)
  note post2 = loadparts_run_post [OF node(8) c'']
  have le1: "partname_dict (fst s') \<subseteq>\<^sub>m partname_dict (fst s'')"
    using post1 by (simp add: loadparts_post_def)
  have le2: "partname_dict (fst s'') \<subseteq>\<^sub>m partname_dict (fst s1)"
    using post2 by (simp add: loadparts_post_def)
  have p1: "partname_dict (fst s1) pn = Some part"
    using c(3) le1 le2 by (metis domI map_le_def)
  have "\<exists>ct'. cti_getitem cti pn = Inr ct' \<and> cti_getitem cti2 pn = Inr ct'
            \<and> Part_load E fs2 pn ct' regF = (Inr part, regF)"
    using node.prems(2) p1 node(2) by blast
  then have a: "cti_getitem cti2 pn = Inr ct"
    "Part_load E fs2 pn ct regF = (Inr part, regF)" using node(3) by auto
  have lp2: "loadpart E fs2 pn ct (fst s, regF) = (Inr part, (fst s', regF))"
    using loadpart_from_Part_load [OF a(2) node(2)] loadpart_Inr_state [OF node(4)] by simp
  have ag1: "\<forall>pn' part'. partname_dict (fst s'') pn' = Some part' \<and> pn' \<notin> dom (partname_dict (fst s')) \<longrightarrow>
           (\<exists>ct. cti_getitem cti pn' = Inr ct \<and> cti_getitem cti2 pn' = Inr ct
                 \<and> Part_load E fs2 pn' ct regF = (Inr part', regF))"
  proof (intro allI impI, elim conjE)
    fix pn' part' assume h: "partname_dict (fst s'') pn' = Some part'" "pn' \<notin> dom (partname_dict (fst s'))"
    have "partname_dict (fst s1) pn' = Some part'" using h(1) le2 by (metis domI map_le_def)
    moreover have "pn' \<notin> dom (partname_dict (fst s))" using h(2) c(4) by simp
    ultimately show "\<exists>ct. cti_getitem cti pn' = Inr ct \<and> cti_getitem cti2 pn' = Inr ct
                 \<and> Part_load E fs2 pn' ct regF = (Inr part', regF)"
      using node.prems(2) by blast
  qed
  have ag2: "\<forall>pn' part'. partname_dict (fst s1) pn' = Some part' \<and> pn' \<notin> dom (partname_dict (fst s'')) \<longrightarrow>
           (\<exists>ct. cti_getitem cti pn' = Inr ct \<and> cti_getitem cti2 pn' = Inr ct
                 \<and> Part_load E fs2 pn' ct regF = (Inr part', regF))"
  proof (intro allI impI, elim conjE)
    fix pn' part' assume h: "partname_dict (fst s1) pn' = Some part'" "pn' \<notin> dom (partname_dict (fst s''))"
    have "pn' \<notin> dom (partname_dict (fst s'))" using h(2) le1 by (meson map_le_implies_dom_le subsetD)
    then have "pn' \<notin> dom (partname_dict (fst s))" using c(4) by simp
    then show "\<exists>ct. cti_getitem cti pn' = Inr ct \<and> cti_getitem cti2 pn' = Inr ct
                 \<and> Part_load E fs2 pn' ct regF = (Inr part', regF)"
      using node.prems(2) h(1) by blast
  qed
  have inner: "loadparts_run E fs2 cti2 (ri_baseURI ri) (rel_list (relationships ri))
                 (fst s', regF) (fst s'', regF)"
    using node.IH(1) [OF c(1) ag1] .
  have rest: "loadparts_run E fs2 cti2 base rels (fst s'', regF) (fst s1, regF)"
    using node.IH(2) [OF c'' ag2] .
  show ?case
    using node(1,2,5,6) a(1) lp2 inner rest
    by (intro loadparts_run.node [where pn = pn and ct = ct and part = part
          and s' = "(fst s', regF)" and ri = ri and s'' = "(fst s'', regF)"]) auto
qed

lemma zip_itemURIs_set:
  "set (itemURIs (ZipFileSystem p ms))
     = (\<lambda>n. CHR ''/'' # n) ` {n \<in> fst ` set ms. \<not> (n \<noteq> [] \<and> last n = CHR ''/'')}"
  by auto

lemma item_like_split: "item_like uri \<Longrightarrow> uri = CHR ''/'' # drop 1 uri"
  by (cases uri) (auto simp: item_like_def)

lemma zip_item_like:
  assumes "fs_contains (ZipFileSystem p ms) u"
  shows "item_like u"
proof -
  from assms obtain n where "u = CHR ''/'' # n" "\<not> (n \<noteq> [] \<and> last n = CHR ''/'')"
    unfolding fs_contains_def zip_itemURIs_set by auto
  then show ?thesis by (simp add: item_like_def)
qed

lemma zip_contains_iff:
  assumes "item_like u"
  shows "fs_contains (ZipFileSystem p ms) u \<longleftrightarrow> drop 1 u \<in> fst ` set ms"
proof -
  note u = item_like_split [OF assms]
  have nl: "\<not> (drop 1 u \<noteq> [] \<and> last (drop 1 u) = CHR ''/'')" using assms by (simp add: item_like_def)
  show ?thesis
  proof
    assume "fs_contains (ZipFileSystem p ms) u"
    then obtain n where "u = CHR ''/'' # n" "n \<in> fst ` set ms"
      unfolding fs_contains_def zip_itemURIs_set by auto
    then show "drop 1 u \<in> fst ` set ms" by simp
  next
    assume "drop 1 u \<in> fst ` set ms"
    then have "CHR ''/'' # drop 1 u \<in> set (itemURIs (ZipFileSystem p ms))"
      unfolding zip_itemURIs_set using nl by blast
    then show "fs_contains (ZipFileSystem p ms) u" using u by (simp add: fs_contains_def)
  qed
qed

lemma write_blob_contains:
  assumes w: "write_blob z bytes uri = Inr z'" and il: "item_like uri"
  shows "fs_contains z' u \<longleftrightarrow> u = uri \<or> fs_contains z u"
proof -
  from w obtain p ms where z: "z = ZipFileSystem p ms"
    "z' = ZipFileSystem p (ms @ [(drop 1 uri, bytes)])" by (rule write_blob_Inr)
  show ?thesis
  proof (cases "item_like u")
    case True
    have "drop 1 u = drop 1 uri \<longleftrightarrow> u = uri"
      using item_like_split [OF True] item_like_split [OF il] by metis
    then show ?thesis unfolding z zip_contains_iff [OF True] by auto
  next
    case False
    then have "\<not> fs_contains z' u" "\<not> fs_contains z u" "u \<noteq> uri"
      using zip_item_like il unfolding z by blast+
    then show ?thesis by simp
  qed
qed

lemma write_blob_holds_new:
  assumes w: "write_blob z bytes uri = Inr z'" and il: "item_like uri"
  shows "fs_holds z' uri bytes"
proof -
  from w obtain p ms where z: "z = ZipFileSystem p ms"
    "z' = ZipFileSystem p (ms @ [(drop 1 uri, bytes)])" by (rule write_blob_Inr)
  have c: "fs_contains z' uri" using write_blob_contains [OF w il] by simp
  then show ?thesis unfolding fs_holds_def using c by (simp add: z)
qed

lemma write_blob_holds_old:
  assumes w: "write_blob z bytes uri = Inr z'" and il: "item_like uri"
    and h: "fs_holds z u b"
  shows "fs_holds z' u b"
proof -
  from w obtain p ms where z: "z = ZipFileSystem p ms"
    "z' = ZipFileSystem p (ms @ [(drop 1 uri, bytes)])" and nc: "\<not> fs_contains z uri"
    by (rule write_blob_Inr)
  have cu: "fs_contains z u" and gu: "getstream z u = Inr b" using h by (auto simp: fs_holds_def)
  have ne: "u \<noteq> uri" using cu nc by auto
  have ilu: "item_like u" using cu zip_item_like unfolding z by blast
  have dn: "drop 1 u \<noteq> drop 1 uri"
    using item_like_split [OF ilu] item_like_split [OF il] ne by metis
  have c': "fs_contains z' u" using write_blob_contains [OF w il] cu by simp
  have "map_of (rev ms) (drop 1 u) = Some b"
    using gu cu unfolding z by (simp split: option.splits)
  then have "getstream z' u = Inr b" using c' dn unfolding z by simp
  then show ?thesis using c' by (simp add: fs_holds_def)
qed

lemma write_blob_path: "write_blob z bytes uri = Inr z' \<Longrightarrow> path z' = path z"
  by (erule write_blob_Inr) simp

lemma save_part_written:
  assumes sp: "save_part E reg part z = (Inr u, z1)"
    and il: "\<forall>u \<in> set (part_uris part). item_like u"
  shows "(\<forall>u. fs_contains z1 u \<longleftrightarrow> fs_contains z u \<or> u \<in> set (part_uris part))"
    and "\<forall>u b. fs_holds z u b \<longrightarrow> fs_holds z1 u b"
    and "part_written E reg z1 part"
    and "path z1 = path z"
proof -
  have ilp: "item_like (partname part)" using il by (simp add: part_uris_def)
  from sp obtain fmt where fmt: "format (objects reg (typespec part)) = Inr fmt"
    by (auto simp: save_part_def split: sum.splits)
  define bytes where "bytes = (if fmt = ''xml'' then map_option (xml_tostring E) (element part)
                               else blob part)"
  from sp fmt obtain b z' where b: "bytes = Some b" and w1: "write_blob z b (partname part) = Inr z'"
    by (auto simp: save_part_def write_element_def bytes_def split: sum.splits option.splits if_splits)
  have body: "(if fmt = ''xml''
          then (case element part of
                  None \<Rightarrow> False
                | Some elm \<Rightarrow> fs_holds z' (partname part) (xml_tostring E elm))
          else (case blob part of
                  None \<Rightarrow> False
                | Some bytes \<Rightarrow> fs_holds z' (partname part) bytes))"
    using b write_blob_holds_new [OF w1 ilp] by (auto simp: bytes_def split: option.splits if_splits)
  have rest: "(case relsitem part of
                  None \<Rightarrow> (Inr (), z')
                | Some ri \<Rightarrow>
                    (case RelationshipsItem_element E ri of
                       Inl e \<Rightarrow> (Inl e, z')
                     | Inr elm \<Rightarrow>
                         (case write_element E z' elm (ri_itemURI ri) of
                            Inl e \<Rightarrow> (Inl e, z')
                          | Inr z'' \<Rightarrow> (Inr (), z'')))) = (Inr u, z1)"
    using sp fmt b w1
    by (auto simp: save_part_def write_element_def bytes_def split: option.splits if_splits)
  have all: "(\<forall>u. fs_contains z1 u \<longleftrightarrow> fs_contains z u \<or> u \<in> set (part_uris part))
        \<and> (\<forall>u b. fs_holds z u b \<longrightarrow> fs_holds z1 u b)
        \<and> part_written E reg z1 part \<and> path z1 = path z"
  proof (cases "relsitem part")
    case None
    then have z1: "z1 = z'" using rest by simp
    show ?thesis
      unfolding z1 part_written_def
      using None fmt body write_blob_contains [OF w1 ilp] write_blob_holds_old [OF w1 ilp]
        write_blob_path [OF w1]
      by (auto simp: part_uris_def)
  next
    case (Some ri)
    have ilr: "item_like (ri_itemURI ri)" using il Some by (simp add: part_uris_def)
    from rest Some obtain el where el: "RelationshipsItem_element E ri = Inr el"
      and w2: "write_blob z' (xml_tostring E el) (ri_itemURI ri) = Inr z1"
      by (auto simp: write_element_def split: sum.splits)
    have body1: "(if fmt = ''xml''
          then (case element part of
                  None \<Rightarrow> False
                | Some elm \<Rightarrow> fs_holds z1 (partname part) (xml_tostring E elm))
          else (case blob part of
                  None \<Rightarrow> False
                | Some bytes \<Rightarrow> fs_holds z1 (partname part) bytes))"
      using body write_blob_holds_old [OF w2 ilr] by (auto split: option.splits if_splits)
    show ?thesis
      unfolding part_written_def
      using Some fmt body1 el write_blob_holds_new [OF w2 ilr]
        write_blob_contains [OF w1 ilp] write_blob_contains [OF w2 ilr]
        write_blob_holds_old [OF w1 ilp] write_blob_holds_old [OF w2 ilr]
        write_blob_path [OF w1] write_blob_path [OF w2]
      by (auto simp: part_uris_def)
  qed
  from all show "(\<forall>u. fs_contains z1 u \<longleftrightarrow> fs_contains z u \<or> u \<in> set (part_uris part))"
    and "\<forall>u b. fs_holds z u b \<longrightarrow> fs_holds z1 u b"
    and "part_written E reg z1 part"
    and "path z1 = path z" by blast+
qed

lemma part_written_mono:
  assumes "part_written E reg z part" "\<forall>u b. fs_holds z u b \<longrightarrow> fs_holds z' u b"
  shows "part_written E reg z' part"
  using assms unfolding part_written_def
  by (auto split: sum.splits option.splits if_splits)

lemma save_parts_written:
  assumes "save_parts E reg ps z = (Inr u, zf)"
    and "\<forall>part \<in> set ps. \<forall>u \<in> set (part_uris part). item_like u"
  shows "(\<forall>u. fs_contains zf u \<longleftrightarrow> fs_contains z u \<or> (\<exists>part \<in> set ps. u \<in> set (part_uris part)))
       \<and> (\<forall>u b. fs_holds z u b \<longrightarrow> fs_holds zf u b)
       \<and> (\<forall>part \<in> set ps. part_written E reg zf part)
       \<and> path zf = path z"
  using assms
proof (induction ps arbitrary: z)
  case Nil
  then show ?case by simp
next
  case (Cons part ps)
  from Cons.prems(1) obtain u1 z1 where sp: "save_part E reg part z = (Inr u1, z1)"
    and rest: "save_parts E reg ps z1 = (Inr u, zf)"
    by (auto split: prod.splits sum.splits)
  have il: "\<forall>u \<in> set (part_uris part). item_like u" using Cons.prems(2) by simp
  note one = save_part_written [OF sp il]
  have ih: "(\<forall>u. fs_contains zf u \<longleftrightarrow> fs_contains z1 u \<or> (\<exists>part \<in> set ps. u \<in> set (part_uris part)))
       \<and> (\<forall>u b. fs_holds z1 u b \<longrightarrow> fs_holds zf u b)
       \<and> (\<forall>part \<in> set ps. part_written E reg zf part)
       \<and> path zf = path z1"
    using Cons.IH [OF rest] Cons.prems(2) by simp
  have w: "part_written E reg zf part"
    using part_written_mono [OF one(3)] ih by blast
  show ?case using one(1,2,4) ih w by auto
qed

lemma item_like_fixed:
  "item_like ''/[Content_Types].xml''" "item_like ''/_rels/.rels''"
  by (simp_all add: item_like_def)

lemma save_items_written:
  assumes si: "save_items E reg pkg (ZipFileSystem T []) = (Inr u, zf)"
    and il: "\<forall>part \<in> set (part_list (parts pkg)). \<forall>u \<in> set (part_uris part). item_like u"
  obtains ctic ct_el ri0 r_el where
    "compose E reg (part_list (parts pkg)) = Inr ctic" "cti_element E ctic = Inr ct_el"
    "pkg_relsitem pkg = Some ri0" "RelationshipsItem_element E ri0 = Inr r_el"
    "fs_holds zf ''/[Content_Types].xml'' (xml_tostring E ct_el)"
    "fs_holds zf ''/_rels/.rels'' (xml_tostring E r_el)"
    "\<forall>part \<in> set (part_list (parts pkg)). part_written E reg zf part"
    "\<forall>u. fs_contains zf u \<longleftrightarrow> u = ''/[Content_Types].xml'' \<or> u = ''/_rels/.rels''
           \<or> (\<exists>part \<in> set (part_list (parts pkg)). u \<in> set (part_uris part))"
    "path zf = T"
proof -
  let ?z0 = "ZipFileSystem T []"
  from si obtain ctic where c: "compose E reg (part_list (parts pkg)) = Inr ctic"
    by (auto simp: save_items_def split: sum.splits)
  from si c obtain ct_el where ce: "cti_element E ctic = Inr ct_el"
    by (auto simp: save_items_def split: sum.splits)
  from si c ce obtain z1 where w1: "write_blob ?z0 (xml_tostring E ct_el) ''/[Content_Types].xml'' = Inr z1"
    by (auto simp: save_items_def write_element_def split: sum.splits)
  from si c ce w1 obtain ri0 where r: "pkg_relsitem pkg = Some ri0"
    by (auto simp: save_items_def write_element_def split: option.splits)
  from si c ce w1 r obtain r_el where re: "RelationshipsItem_element E ri0 = Inr r_el"
    by (auto simp: save_items_def write_element_def split: sum.splits)
  from si c ce w1 r re obtain z2 where w2: "write_blob z1 (xml_tostring E r_el) ''/_rels/.rels'' = Inr z2"
    by (auto simp: save_items_def write_element_def split: sum.splits)
  from si c ce w1 r re w2 have sp: "save_parts E reg (part_list (parts pkg)) z2 = (Inr u, zf)"
    by (simp add: save_items_def write_element_def)
  note p = save_parts_written [OF sp il]
  have c0: "\<And>u. \<not> fs_contains ?z0 u" by (simp add: fs_contains_def)
  have h1: "fs_holds z2 ''/[Content_Types].xml'' (xml_tostring E ct_el)"
    using write_blob_holds_old [OF w2 item_like_fixed(2) write_blob_holds_new [OF w1 item_like_fixed(1)]] .
  have h2: "fs_holds z2 ''/_rels/.rels'' (xml_tostring E r_el)"
    using write_blob_holds_new [OF w2 item_like_fixed(2)] .
  have cont: "\<forall>u. fs_contains zf u \<longleftrightarrow> u = ''/[Content_Types].xml'' \<or> u = ''/_rels/.rels''
           \<or> (\<exists>part \<in> set (part_list (parts pkg)). u \<in> set (part_uris part))"
    using p write_blob_contains [OF w1 item_like_fixed(1)] write_blob_contains [OF w2 item_like_fixed(2)] c0
    by auto
  have pth: "path zf = T"
    using p write_blob_path [OF w1] write_blob_path [OF w2] by simp
  show ?thesis
    using that [OF c ce r re _ _ _ cont pth] p h1 h2 by blast
qed

lemma getelement_holds:
  assumes "fs_holds z u bytes"
  shows "getelement E z u = (case xml_parse E bytes of None \<Rightarrow> Inl NotXMLError | Some el \<Rightarrow> Inr el)"
  using assms by (simp add: fs_holds_def getelement_def)

lemma additem_cong:
  "Relationship_init y = Relationship_init x \<Longrightarrow> additem rc y = additem rc x"
  by (simp add: additem_def)

lemma additems_cong:
  "map Relationship_init ys = map Relationship_init xs \<Longrightarrow> additems ys rc = additems xs rc"
proof (induction xs arbitrary: ys rc)
  case Nil
  then show ?case by simp
next
  case (Cons x xs)
  then obtain y ys' where ys: "ys = y # ys'" "Relationship_init y = Relationship_init x"
    "map Relationship_init ys' = map Relationship_init xs" by (cases ys) auto
  show ?case unfolding ys(1)
    using additem_cong [OF ys(2)] Cons.IH [OF ys(3)]
    by (simp split: prod.splits sum.splits)
qed

lemma additems_rel_list:
  "additems xs rc = Inr rc' \<Longrightarrow> rel_list rc' = rel_list rc @ map Relationship_init xs"
proof (induction xs arbitrary: rc)
  case Nil
  then show ?case by simp
next
  case (Cons x xs)
  from Cons.prems obtain r rc1 where a: "additem rc x = (Inr r, rc1)" "additems xs rc1 = Inr rc'"
    by (auto split: prod.splits sum.splits)
  have "rel_list rc1 = rel_list rc @ [Relationship_init x]"
    using a(1) by (auto simp: additem_def Let_def split: if_splits)
  with Cons.IH [OF a(2)] show ?case by simp
qed

lemma rels_reload:
  assumes orig: "RelationshipsItem_load E fs uri0 = Inr (relationships ri)"
    and held: "\<And>el. RelationshipsItem_element E ri = Inr el \<Longrightarrow> fs_holds z uri (xml_tostring E el)"
    and el: "RelationshipsItem_element E ri = Inr r_el"
    and rb: "rels_read_back E ri"
  shows "RelationshipsItem_load E z uri = Inr (relationships ri)"
proof -
  let ?q = "qname E ''pr'' ''Relationship''"
  from orig obtain el0 where
    a0: "additems (findall el0 ?q) RelationshipCollection_init = Inr (relationships ri)"
    by (auto simp: RelationshipsItem_load_def split: sum.splits)
  from additems_rel_list [OF a0]
  have l0: "rel_list (relationships ri) = map Relationship_init (findall el0 ?q)"
    by (simp add: RelationshipCollection_init_def)
  from rb el obtain el' where p: "xml_parse E (xml_tostring E r_el) = Some el'"
    and m: "map Relationship_init (findall el' ?q) = rel_list (relationships ri)"
    by (auto simp: rels_read_back_def split: option.splits)
  have g: "getelement E z uri = Inr el'"
    using getelement_holds [OF held [OF el]] p by simp
  have "additems (findall el' ?q) RelationshipCollection_init
      = additems (findall el0 ?q) RelationshipCollection_init"
    by (rule additems_cong) (simp add: m l0)
  then show ?thesis using g a0 by (simp add: RelationshipsItem_load_def)
qed

lemma Part_load_with_Inr:
  assumes "Part_load_with E fs pn ts spec = Inr part"
  obtains fmt b el uo ro where "format spec = Inr fmt" "load_body E fs fmt pn = Inr (b, el)"
    "relsitemURI spec pn fs = Inr uo" "load_relsitem E fs pn uo = Inr ro"
    "part = \<lparr>partname = pn, relsitem = ro, blob = b, element = el, typespec = ts\<rparr>"
  using assms by (auto simp: Part_load_with_def split: sum.splits prod.splits)

lemma load_relsitem_Some:
  assumes "load_relsitem E fs pn uo = Inr (Some ri)"
  obtains uri where "uo = Some uri" "uri \<noteq> []" "fs_contains fs uri" "ri_itemURI ri = uri"
    "ri_baseURI ri = fst (split_path pn)"
    "RelationshipsItem_load E fs uri = Inr (relationships ri)"
  using assms
  by (auto simp: load_relsitem_def PartRelationshipsItem_load_def
        split: option.splits if_splits sum.splits)

lemma load_relsitem_None:
  assumes "load_relsitem E fs pn uo = Inr None"
  shows "uo = None \<or> uo = Some []"
  using assms
  by (auto simp: load_relsitem_def PartRelationshipsItem_load_def
        split: option.splits if_splits sum.splits)

lemma load_body_saved:
  assumes lb: "load_body E fs fmt pn = Inr (b, el)"
    and held: "if fmt = ''xml''
          then (case el of None \<Rightarrow> False
                | Some elm \<Rightarrow> fs_holds z pn (xml_tostring E elm))
          else (case b of None \<Rightarrow> False
                | Some bytes \<Rightarrow> fs_holds z pn bytes)"
    and rb: "\<forall>elm. el = Some elm \<longrightarrow> reads_back E elm"
  shows "load_body E z fmt pn = Inr (b, el)"
proof (cases "fmt = ''xml''")
  case True
  from lb True obtain elm where e: "el = Some elm" "b = None"
    by (auto simp: load_body_def split: sum.splits)
  have "fs_holds z pn (xml_tostring E elm)" using held True e by simp
  from getelement_holds [OF this] rb e have "getelement E z pn = Inr elm"
    by (simp add: reads_back_def)
  then show ?thesis using True e by (simp add: load_body_def)
next
  case False
  from lb False obtain bytes where e: "b = Some bytes" "el = None"
    by (auto simp: load_body_def split: sum.splits)
  have "fs_holds z pn bytes" using held False e by simp
  then have "getstream z pn = Inr bytes" by (simp add: fs_holds_def)
  then show ?thesis using False e by (simp add: load_body_def)
qed

lemma Part_load_with_saved:
  assumes orig: "Part_load_with E fs pn ts (objects reg ts) = Inr part"
    and written: "part_written E reg z part"
    and body_rb: "\<forall>elm. element part = Some elm \<longrightarrow> reads_back E elm"
    and rels_rb: "\<forall>ri. relsitem part = Some ri \<longrightarrow> rels_read_back E ri"
    and sub: "\<forall>u. fs_contains z u \<longrightarrow> fs_contains fs u"
  shows "Part_load_with E z pn ts (objects reg ts) = Inr part"
proof -
  let ?spec = "objects reg ts"
  let ?uri = "fst (split_path pn) @ ''/_rels/'' @ snd (split_path pn) @ ''.rels''"
  from orig obtain fmt b el uo ro where f: "format ?spec = Inr fmt"
    and lb: "load_body E fs fmt pn = Inr (b, el)"
    and ru: "relsitemURI ?spec pn fs = Inr uo"
    and lr: "load_relsitem E fs pn uo = Inr ro"
    and part: "part = \<lparr>partname = pn, relsitem = ro, blob = b, element = el, typespec = ts\<rparr>"
    by (rule Part_load_with_Inr)
  from f obtain a where a: "attrs ?spec = Some a" by (auto simp: format_def split: option.splits)
  have w1: "if fmt = ''xml''
          then (case el of None \<Rightarrow> False
                | Some elm \<Rightarrow> fs_holds z pn (xml_tostring E elm))
          else (case b of None \<Rightarrow> False
                | Some bytes \<Rightarrow> fs_holds z pn bytes)"
    using written f unfolding part_written_def part
    by (cases "fmt = ''xml''") (auto split: option.splits)
  have w2: "case ro of None \<Rightarrow> True
       | Some ri \<Rightarrow>
           (case RelationshipsItem_element E ri of
              Inl e \<Rightarrow> False
            | Inr elm \<Rightarrow> fs_holds z (ri_itemURI ri) (xml_tostring E elm))"
    using written unfolding part_written_def part by (auto split: option.splits sum.splits)
  have lb2: "load_body E z fmt pn = Inr (b, el)"
    by (rule load_body_saved [OF lb w1]) (use body_rb part in simp)
  have lr2: "load_relsitem E z pn uo = Inr ro \<and> (uo = Some ?uri \<longrightarrow> fs_contains z ?uri)"
  proof (cases ro)
    case None
    then have "uo = None \<or> uo = Some []" using lr load_relsitem_None by simp
    then show ?thesis using None by (auto simp: load_relsitem_def)
  next
    case (Some ri)
    from lr [unfolded Some] obtain uri where u: "uo = Some uri" "uri \<noteq> []" "fs_contains fs uri"
      "ri_itemURI ri = uri" "ri_baseURI ri = fst (split_path pn)"
      "RelationshipsItem_load E fs uri = Inr (relationships ri)"
      by (rule load_relsitem_Some)
    from w2 Some obtain r_el where re: "RelationshipsItem_element E ri = Inr r_el"
      and h: "fs_holds z uri (xml_tostring E r_el)"
      by (auto simp: u(4) split: sum.splits)
    have rb: "rels_read_back E ri" using rels_rb part Some by simp
    have "RelationshipsItem_load E z uri = Inr (relationships ri)"
      by (rule rels_reload [OF u(6) _ re rb]) (use re h in simp)
    moreover have c: "fs_contains z uri" using h by (simp add: fs_holds_def)
    moreover have "ri = \<lparr>ri_baseURI = fst (split_path pn), ri_itemURI = uri,
                          relationships = relationships ri\<rparr>"
      using u(4,5) by simp
    ultimately have "load_relsitem E z pn uo = Inr ro"
      using u(1,2) Some by (simp add: load_relsitem_def PartRelationshipsItem_load_def)
    then show ?thesis using c u(1) by auto
  qed
  have ru2: "relsitemURI ?spec pn z = Inr uo"
  proof -
    note r1 = relsitemURI_attrs [OF a, of pn fs] and r2 = relsitemURI_attrs [OF a, of pn z]
    show ?thesis
    proof (cases "has_rels a = ''optional''")
      case False
      then show ?thesis using ru r1 r2 by (auto split: if_splits)
    next
      case True
      have "fs_contains z ?uri \<longleftrightarrow> fs_contains fs ?uri"
      proof
        assume "fs_contains z ?uri" then show "fs_contains fs ?uri" using sub by blast
      next
        assume "fs_contains fs ?uri"
        then have "uo = Some ?uri" using ru r1 True by (auto split: if_splits)
        then show "fs_contains z ?uri" using lr2 by blast
      qed
      then show ?thesis using ru r1 r2 True by (auto split: if_splits)
    qed
  qed
  show ?thesis
    using f lb2 ru2 lr2 part by (simp add: Part_load_with_def)
qed

end
